theory Spec2Isabelle
  imports Main
begin

section \<open>The Serializable object-graph serializer\<close>

text \<open>
  A shallow embedding of \<^verbatim>\<open>src/Serializable/index.js\<close> (class \<^verbatim>\<open>Serializable\<close>):
  the class registry, the base constructor with \<^verbatim>\<open>_validateArgs\<close>, \<^verbatim>\<open>serialize\<close> with
  \<^verbatim>\<open>_serializeValue\<close>, and \<^verbatim>\<open>deserialize\<close> with \<^verbatim>\<open>_deserializeValue\<close>.

  JavaScript objects have identity and may form cycles, so they live in an explicit heap and
  values refer to them by address. Recursion depth is bounded by a call-stack budget: a call
  that needs more frames than the budget ends in \<open>StackOverflow\<close>, the model of the engine's
  \<^verbatim>\<open>RangeError: Maximum call stack size exceeded\<close>.
\<close>

subsection \<open>Values, wire nodes and the heap\<close>

text \<open>
  Primitive values, strings and wire nodes. A node is what \<^verbatim>\<open>recursiveSerialize\<close> builds and
  what \<^verbatim>\<open>JSON.parse\<close> returns: a primitive, an array or an object with ordered keys.

  The text codec is the host's (\<^verbatim>\<open>JSON.stringify\<close>, \<^verbatim>\<open>JSON.parse\<close>, \<^verbatim>\<open>Date.prototype.toISOString\<close>,
  the \<^verbatim>\<open>Date\<close> constructor). A string is therefore kept by what it reads as: \<open>Json t\<close> is the
  JSON text of the tree \<open>t\<close>, \<open>Iso t\<close> is the ISO-8601 text of the instant \<open>t\<close> (milliseconds),
  and \<open>Lit s\<close> is any other string, with characters \<open>s\<close>. Numbers are the integers; functions
  and symbols are opaque and carry a label only.
\<close>

type_synonym addr = nat

datatype prim =
    PUndefined
  | PNull
  | PBool bool
  | PNum int
  | PStr jstr
  | PBigInt int
  | PFunction string
  | PSymbol string
and jstr =
    Lit string
  | Json node
  | Iso int
and node =
    NPrim prim
  | NArr "node list"
  | NObj "(string \<times> node) list"

datatype jsval = Prim prim | Ref addr

text \<open>
  Heap objects, one constructor per runtime kind that the serializer tells apart.
  \<open>OInstance c ps\<close> is an instance of a subclass of \<^verbatim>\<open>Serializable\<close> named \<open>c\<close> with its own
  enumerable properties \<open>ps\<close> in \<^verbatim>\<open>Object.entries\<close> order (the class field
  \<^verbatim>\<open>_serializeInitArgs\<close> is one of them). \<open>OOther c\<close> is any other object, for instance an
  instance of a class \<open>c\<close> that does not extend \<^verbatim>\<open>Serializable\<close>.
\<close>

datatype obj =
    OInstance string "(string \<times> jsval) list"
  | OArray "jsval list"
  | OMap "(jsval \<times> jsval) list"
  | OSet "jsval list"
  | OTypedArray string "prim list"
  | ODate "int option"
  | ORegExp jstr jstr
  | OError prim prim prim
  | OPlain "(string \<times> jsval) list"
  | OOther string

type_synonym heap = "obj list"

definition deref :: "heap \<Rightarrow> addr \<Rightarrow> obj option" where
  "deref h a = (if a < length h then Some (h ! a) else None)"

text \<open>
  Every \<^verbatim>\<open>throw\<close> of the source, and every exception of the host that the code can meet.
  \<open>DanglingAddress\<close> marks a value that refers to no object of the heap, which no program
  can build; \<open>Unmodelled\<close> marks an input on which the host applies conversions that the
  model does not follow (they arise only for hand-written wire data of unexpected shape).
\<close>

datatype error =
    DirectInstantiation
  | RegisterNoName
  | InvalidConstructorArg string
  | UnsupportedType string
  | InvalidJSON
  | ClassNotFound node
  | UnsupportedTag node
  | ReferenceError string
  | TypeError string
  | RangeError string
  | StackOverflow
  | DanglingAddress addr
  | Unmodelled string

subsection \<open>Sequencing helpers\<close>

text \<open>\<^verbatim>\<open>xs.map(f)\<close> for an \<open>f\<close> that can throw: the first exception ends the loop.\<close>

fun map_err :: "('a \<Rightarrow> error + 'b) \<Rightarrow> 'a list \<Rightarrow> error + 'b list" where
  "map_err f [] = Inr []"
| "map_err f (x # xs) =
     (case f x of
        Inl e \<Rightarrow> Inl e
      | Inr y \<Rightarrow> (case map_err f xs of Inl e \<Rightarrow> Inl e | Inr ys \<Rightarrow> Inr (y # ys)))"

text \<open>The same loop for an \<open>f\<close> that also updates a local state, left to right.\<close>

fun map_st :: "('a \<Rightarrow> 's \<Rightarrow> error + ('b \<times> 's)) \<Rightarrow> 'a list \<Rightarrow> 's \<Rightarrow> error + ('b list \<times> 's)" where
  "map_st f [] s = Inr ([], s)"
| "map_st f (x # xs) s =
     (case f x s of
        Inl e \<Rightarrow> Inl e
      | Inr (y, s') \<Rightarrow>
          (case map_st f xs s' of Inl e \<Rightarrow> Inl e | Inr (ys, s'') \<Rightarrow> Inr (y # ys, s'')))"

subsection \<open>JSON.stringify and JSON.parse\<close>

text \<open>
  \<^verbatim>\<open>JSON.stringify\<close> drops a property whose value is \<^verbatim>\<open>undefined\<close>, a function or a symbol,
  writes \<^verbatim>\<open>null\<close> for such an array element, and throws a \<^verbatim>\<open>TypeError\<close> on a BigInt.
  \<open>prune t\<close> is the tree that the written text reads back as.
\<close>

fun omitted :: "node \<Rightarrow> bool" where
  "omitted (NPrim PUndefined) = True"
| "omitted (NPrim (PFunction f)) = True"
| "omitted (NPrim (PSymbol s)) = True"
| "omitted t = False"

fun prune :: "node \<Rightarrow> error + node"
  and prune_elems :: "node list \<Rightarrow> error + node list"
  and prune_fields :: "(string \<times> node) list \<Rightarrow> error + (string \<times> node) list" where
  "prune (NPrim p) =
     (case p of PBigInt i \<Rightarrow> Inl (TypeError ''Do not know how to serialize a BigInt'')
      | _ \<Rightarrow> Inr (NPrim p))"
| "prune (NArr xs) = (case prune_elems xs of Inl e \<Rightarrow> Inl e | Inr ys \<Rightarrow> Inr (NArr ys))"
| "prune (NObj fs) = (case prune_fields fs of Inl e \<Rightarrow> Inl e | Inr gs \<Rightarrow> Inr (NObj gs))"
| "prune_elems [] = Inr []"
| "prune_elems (x # xs) =
     (case (if omitted x then Inr (NPrim PNull) else prune x) of
        Inl e \<Rightarrow> Inl e
      | Inr y \<Rightarrow> (case prune_elems xs of Inl e \<Rightarrow> Inl e | Inr ys \<Rightarrow> Inr (y # ys)))"
| "prune_fields [] = Inr []"
| "prune_fields ((k, x) # fs) =
     (if omitted x then prune_fields fs
      else (case prune x of
              Inl e \<Rightarrow> Inl e
            | Inr y \<Rightarrow> (case prune_fields fs of Inl e \<Rightarrow> Inl e | Inr gs \<Rightarrow> Inr ((k, y) # gs))))"

definition JSON_stringify :: "node \<Rightarrow> error + jstr" where
  "JSON_stringify t = (case prune t of Inl e \<Rightarrow> Inl e | Inr u \<Rightarrow> Inr (Json u))"

definition JSON_parse :: "jstr \<Rightarrow> node option" where
  "JSON_parse s = (case s of Json t \<Rightarrow> Some t | _ \<Rightarrow> None)"

subsection \<open>Serialization\<close>

text \<open>
  The tracker of one \<^verbatim>\<open>_serializeValue\<close> call: the \<^verbatim>\<open>WeakMap seen\<close> from object to id and the
  counter \<^verbatim>\<open>refId.current\<close>. Both are created afresh by every call of \<^verbatim>\<open>_serializeValue\<close>.
\<close>

record tracker =
  seen :: "addr \<rightharpoonup> nat"
  current :: nat

definition fresh_tracker :: tracker where
  "fresh_tracker = \<lparr>seen = Map.empty, current = 0\<rparr>"

definition str :: "string \<Rightarrow> node" where
  "str s = NPrim (PStr (Lit s))"

definition num :: "nat \<Rightarrow> node" where
  "num i = NPrim (PNum (int i))"

definition ref_node :: "nat \<Rightarrow> node" where
  "ref_node i = NObj [(''__type'', str ''ref''), (''id'', num i)]"

text \<open>\<^verbatim>\<open>bigint.toString()\<close>: the decimal numeral, which is the JSON text of the same number.\<close>

definition decimal :: "int \<Rightarrow> jstr" where
  "decimal i = Json (NPrim (PNum i))"

text \<open>\<^verbatim>\<open>typeof value\<close>.\<close>

fun js_typeof :: "jsval \<Rightarrow> string" where
  "js_typeof (Prim PUndefined) = ''undefined''"
| "js_typeof (Prim PNull) = ''object''"
| "js_typeof (Prim (PBool b)) = ''boolean''"
| "js_typeof (Prim (PNum i)) = ''number''"
| "js_typeof (Prim (PStr s)) = ''string''"
| "js_typeof (Prim (PBigInt i)) = ''bigint''"
| "js_typeof (Prim (PFunction f)) = ''function''"
| "js_typeof (Prim (PSymbol s)) = ''symbol''"
| "js_typeof (Ref a) = ''object''"

text \<open>
  \<^verbatim>\<open>recursiveSerialize\<close> (the closure inside \<^verbatim>\<open>_serializeValue\<close>), \<^verbatim>\<open>_serializeValue\<close> and the
  instance method \<^verbatim>\<open>serialize\<close> call each other. The first argument is the number of stack
  frames still available. The branches of \<^verbatim>\<open>recursiveSerialize\<close> are the source's, in its
  order: Serializable instance, array, Map, Set, typed-array view, Date, RegExp, Error,
  bigint, undefined, null or non-object, plain object, and the final \<^verbatim>\<open>throw\<close>.
\<close>

fun recursiveSerialize :: "nat \<Rightarrow> heap \<Rightarrow> jsval \<Rightarrow> tracker \<Rightarrow> error + (node \<times> tracker)"
  and serializeValue :: "nat \<Rightarrow> heap \<Rightarrow> jsval \<Rightarrow> error + node"
  and serialize :: "nat \<Rightarrow> heap \<Rightarrow> addr \<Rightarrow> error + jstr" where
  "recursiveSerialize 0 h v tr = Inl StackOverflow"
| "recursiveSerialize (Suc n) h (Ref a) tr =
     (case deref h a of
        None \<Rightarrow> Inl (DanglingAddress a)
      | Some (OInstance c ps) \<Rightarrow>
          (case seen tr a of
             Some i \<Rightarrow> Inr (ref_node i, tr)
           | None \<Rightarrow>
               (let i = current tr;
                    tr' = tr\<lparr>seen := (seen tr)(a \<mapsto> i), current := Suc i\<rparr>
                in case serialize n h a of
                     Inl e \<Rightarrow> Inl e
                   | Inr s \<Rightarrow>
                       Inr (NObj [(''__type'', str ''Serializable''), (''id'', num i),
                                  (''data'', NPrim (PStr s))], tr')))
      | Some (OArray xs) \<Rightarrow>
          (case map_st (\<lambda>x t. recursiveSerialize n h x t) xs tr of
             Inl e \<Rightarrow> Inl e
           | Inr (ys, tr') \<Rightarrow> Inr (NObj [(''__type'', str ''Array''), (''data'', NArr ys)], tr'))
      | Some (OMap kvs) \<Rightarrow>
          (case map_st (\<lambda>(k, v) t.
                   case recursiveSerialize n h k t of
                     Inl e \<Rightarrow> Inl e
                   | Inr (nk, t1) \<Rightarrow>
                       (case recursiveSerialize n h v t1 of
                          Inl e \<Rightarrow> Inl e
                        | Inr (nv, t2) \<Rightarrow> Inr (NArr [nk, nv], t2))) kvs tr of
             Inl e \<Rightarrow> Inl e
           | Inr (ys, tr') \<Rightarrow> Inr (NObj [(''__type'', str ''Map''), (''data'', NArr ys)], tr'))
      | Some (OSet xs) \<Rightarrow>
          (case map_st (\<lambda>x t. recursiveSerialize n h x t) xs tr of
             Inl e \<Rightarrow> Inl e
           | Inr (ys, tr') \<Rightarrow> Inr (NObj [(''__type'', str ''Set''), (''data'', NArr ys)], tr'))
      | Some (OTypedArray c xs) \<Rightarrow>
          Inr (NObj [(''__type'', str ''TypedArray''), (''constructor'', str c),
                     (''data'', NArr (map NPrim xs))], tr)
      | Some (ODate t) \<Rightarrow>
          (case t of
             None \<Rightarrow> Inl (RangeError ''Invalid time value'')
           | Some ms \<Rightarrow> Inr (NObj [(''__type'', str ''Date''), (''data'', NPrim (PStr (Iso ms)))], tr))
      | Some (ORegExp src fl) \<Rightarrow>
          Inr (NObj [(''__type'', str ''RegExp''), (''source'', NPrim (PStr src)),
                     (''flags'', NPrim (PStr fl))], tr)
      | Some (OError nm msg stk) \<Rightarrow>
          Inr (NObj [(''__type'', str ''Error''), (''name'', NPrim nm), (''message'', NPrim msg),
                     (''stack'', NPrim stk)], tr)
      | Some (OPlain ps) \<Rightarrow>
          (case seen tr a of
             Some i \<Rightarrow> Inr (ref_node i, tr)
           | None \<Rightarrow>
               (let i = current tr;
                    tr' = tr\<lparr>seen := (seen tr)(a \<mapsto> i), current := Suc i\<rparr>
                in case map_st (\<lambda>(k, v) t.
                          case recursiveSerialize n h v t of
                            Inl e \<Rightarrow> Inl e
                          | Inr (nv, t1) \<Rightarrow> Inr ((k, nv), t1)) ps tr' of
                     Inl e \<Rightarrow> Inl e
                   | Inr (fs, tr'') \<Rightarrow>
                       Inr (NObj [(''__type'', str ''Object''), (''id'', num i),
                                  (''data'', NObj fs)], tr'')))
      | Some (OOther c) \<Rightarrow> Inl (UnsupportedType (js_typeof (Ref a))))"
| "recursiveSerialize (Suc n) h (Prim p) tr =
     (case p of
        PBigInt i \<Rightarrow> Inr (NObj [(''__type'', str ''BigInt''), (''data'', NPrim (PStr (decimal i)))], tr)
      | PUndefined \<Rightarrow> Inr (NObj [(''__type'', str ''undefined'')], tr)
      | _ \<Rightarrow> Inr (NPrim p, tr))"
| "serializeValue 0 h v = Inl StackOverflow"
| "serializeValue (Suc n) h v =
     (case recursiveSerialize n h v fresh_tracker of
        Inl e \<Rightarrow> Inl e
      | Inr (t, tr) \<Rightarrow> Inr t)"
| "serialize 0 h a = Inl StackOverflow"
| "serialize (Suc n) h a =
     (case deref h a of
        Some (OInstance c ps) \<Rightarrow>
          (case map_err (\<lambda>(k, v).
                   case serializeValue n h v of
                     Inl e \<Rightarrow> Inl e
                   | Inr t \<Rightarrow> Inr (k, t)) ps of
             Inl e \<Rightarrow> Inl e
           | Inr props \<Rightarrow>
               (case map_of ps ''_serializeInitArgs'' of
                  Some (Ref b) \<Rightarrow>
                    (case deref h b of
                       Some (OArray as) \<Rightarrow>
                         (case map_err (\<lambda>x. serializeValue n h x) as of
                            Inl e \<Rightarrow> Inl e
                          | Inr args \<Rightarrow>
                              JSON_stringify
                                (NObj [(''className'', str c), (''serializeInitArgs'', NArr args),
                                       (''properties'', NObj props)]))
                     | _ \<Rightarrow> Inl (TypeError ''this._serializeInitArgs.map is not a function''))
                | _ \<Rightarrow> Inl (TypeError ''this._serializeInitArgs.map is not a function'')))
      | _ \<Rightarrow> Inl (TypeError ''serialize is not a function''))"

subsection \<open>The registry and the constructor\<close>

text \<open>
  What \<^verbatim>\<open>register\<close> accepts is any named function, and a class is free in how it
  constructs. Two shapes of constructor are told apart. \<open>CallsSuper f g\<close> is a subclass
  constructor that calls \<^verbatim>\<open>super(...f(args))\<close>, lets an exception of that call propagate, and
  then assigns the properties \<open>g args\<close> to \<^verbatim>\<open>this\<close>; the default constructor is
  \<open>CallsSuper (\<lambda>args. args) (\<lambda>args. [])\<close>. \<open>NoSuper f\<close> never runs the base constructor and
  hands back the object \<open>f args\<close>: a subclass constructor that returns an object of its own
  without calling \<^verbatim>\<open>super()\<close>, or a registered function that does not extend \<^verbatim>\<open>Serializable\<close>.
\<close>

datatype ctor =
    CallsSuper "jsval list \<Rightarrow> jsval list" "jsval list \<Rightarrow> (string \<times> jsval) list"
  | NoSuper "jsval list \<Rightarrow> obj"

record cls =
  cname :: string
  ctor :: ctor

text \<open>
  The state that outlives a call: the objects, \<^verbatim>\<open>Serializable._classRegistry\<close>, the
  bindings that the host's global object has beside its built-ins, and the lines written
  to the console.
\<close>

record world =
  hp :: heap
  classRegistry :: "string \<rightharpoonup> cls"
  globals :: "string \<rightharpoonup> jsval"
  console :: "string list"

text \<open>\<^verbatim>\<open>static register(Class)\<close>.\<close>

definition register :: "cls \<Rightarrow> world \<Rightarrow> (error + unit) \<times> world" where
  "register Class w =
     (let className = cname Class
      in if className = [] then (Inl RegisterNoName, w)
         else if classRegistry w className = None
           then (Inr (), w\<lparr>classRegistry := (classRegistry w)(className \<mapsto> Class)\<rparr>)
           else (Inr (), w))"

text \<open>
  \<^verbatim>\<open>_validateArgs(args)\<close>: the warnings of a validation that completes (one per plain object
  that holds a function), or the error thrown. An argument of no accepted kind throws the
  library's error; \<^verbatim>\<open>null\<close> enters the accepting branch, whose test
  \<^verbatim>\<open>typeof arg === "object" && arg.constructor === Object\<close> then reads \<^verbatim>\<open>null.constructor\<close>, a
  \<^verbatim>\<open>TypeError\<close>. \<open>validateArgs_console\<close> gives the lines that the call writes to the console,
  also when it throws.
\<close>

fun is_function :: "jsval \<Rightarrow> bool" where
  "is_function (Prim (PFunction f)) = True"
| "is_function v = False"

fun validateArgs :: "heap \<Rightarrow> string \<Rightarrow> jsval list \<Rightarrow> error + string list" where
  "validateArgs h c [] = Inr []"
| "validateArgs h c (Prim PNull # args) =
     Inl (TypeError ''Cannot read properties of null (reading constructor)'')"
| "validateArgs h c (Prim p # args) = validateArgs h c args"
| "validateArgs h c (Ref a # args) =
     (case deref h a of
        None \<Rightarrow> Inl (DanglingAddress a)
      | Some (OOther k) \<Rightarrow> Inl (InvalidConstructorArg c)
      | Some (OPlain ps) \<Rightarrow>
          (case validateArgs h c args of
             Inl e \<Rightarrow> Inl e
           | Inr ws \<Rightarrow> Inr (if list_ex (\<lambda>(k, v). is_function v) ps then c # ws else ws))
      | Some ob \<Rightarrow> validateArgs h c args)"

fun validateArgs_console :: "heap \<Rightarrow> string \<Rightarrow> jsval list \<Rightarrow> string list" where
  "validateArgs_console h c [] = []"
| "validateArgs_console h c (Prim PNull # args) = []"
| "validateArgs_console h c (Prim p # args) = validateArgs_console h c args"
| "validateArgs_console h c (Ref a # args) =
     (case deref h a of
        None \<Rightarrow> []
      | Some (OOther k) \<Rightarrow> [''Serializable log debug: '' @ c]
      | Some (OPlain ps) \<Rightarrow>
          (if list_ex (\<lambda>(k, v). is_function v) ps then [''Serializable warning: '' @ c] else []) @
          validateArgs_console h c args
      | Some ob \<Rightarrow> validateArgs_console h c args)"

text \<open>
  Identifier resolution inside the base constructor. Its parameter list is
  \<^verbatim>\<open>(...allChildArgs)\<close>; the file declares \<^verbatim>\<open>Serializable\<close>; the built-ins that the file uses
  are the host's; every other name is looked up among the other bindings of the host's
  global object, and is unbound when it is not there.
\<close>

datatype binding = RestArgs "jsval list" | Declared | Global jsval

definition host_globals :: "string list" where
  "host_globals = [''Error'', ''Map'', ''Set'', ''Date'', ''RegExp'', ''Array'', ''ArrayBuffer'',
     ''Object'', ''WeakMap'', ''BigInt'', ''JSON'', ''console'', ''globalThis'']"

definition constructor_scope :: "jsval list \<Rightarrow> (string \<times> binding) list" where
  "constructor_scope allChildArgs =
     (''allChildArgs'', RestArgs allChildArgs) #
     map (\<lambda>x. (x, Declared)) (''Serializable'' # host_globals)"

definition resolve :: "(string \<times> binding) list \<Rightarrow> (string \<rightharpoonup> jsval) \<Rightarrow> string \<Rightarrow> error + binding" where
  "resolve sc g x =
     (case map_of sc x of
        Some b \<Rightarrow> Inr b
      | None \<Rightarrow> (case g x of None \<Rightarrow> Inl (ReferenceError x) | Some v \<Rightarrow> Inr (Global v)))"

text \<open>\<^verbatim>\<open>for (const arg of v)\<close>: the values that the loop visits.\<close>

definition iterate :: "heap \<Rightarrow> jsval \<Rightarrow> error + jsval list" where
  "iterate h v =
     (case v of
        Prim (PStr s) \<Rightarrow> Inl (Unmodelled ''iterating a string'')
      | Prim p \<Rightarrow> Inl (TypeError ''args is not iterable'')
      | Ref a \<Rightarrow>
          (case deref h a of
             Some (OArray xs) \<Rightarrow> Inr xs
           | Some (OSet xs) \<Rightarrow> Inr xs
           | Some (OTypedArray c ps) \<Rightarrow> Inr (map Prim ps)
           | Some (OMap kvs) \<Rightarrow> Inl (Unmodelled ''iterating a Map'')
           | _ \<Rightarrow> Inl (TypeError ''args is not iterable'')))"

text \<open>
  \<^verbatim>\<open>obj[key] = value\<close> on own properties: an existing key keeps its place. Property lists
  are kept for instances and plain objects; an assignment to an object of another kind
  is not recorded.
\<close>

fun assign_prop :: "string \<Rightarrow> jsval \<Rightarrow> (string \<times> jsval) list \<Rightarrow> (string \<times> jsval) list" where
  "assign_prop k v [] = [(k, v)]"
| "assign_prop k v ((k', v') # ps) =
     (if k = k' then (k, v) # ps else (k', v') # assign_prop k v ps)"

definition set_prop :: "heap \<Rightarrow> addr \<Rightarrow> string \<Rightarrow> jsval \<Rightarrow> heap" where
  "set_prop h a k v =
     (case deref h a of
        Some (OInstance c ps) \<Rightarrow> h[a := OInstance c (assign_prop k v ps)]
      | Some (OPlain ps) \<Rightarrow> h[a := OPlain (assign_prop k v ps)]
      | _ \<Rightarrow> h)"

text \<open>
  \<^verbatim>\<open>constructor(...allChildArgs)\<close> of \<^verbatim>\<open>Serializable\<close>, run with \<^verbatim>\<open>new.target\<close> \<open>target\<close>
  (\<open>None\<close> for \<^verbatim>\<open>Serializable\<close> itself). The engine creates \<^verbatim>\<open>this\<close>, runs the field
  initializer \<^verbatim>\<open>_serializeInitArgs = []\<close> and builds the rest array before the body starts.
  The result is the address of \<^verbatim>\<open>this\<close>.
\<close>

definition Serializable_constructor ::
    "cls option \<Rightarrow> jsval list \<Rightarrow> world \<Rightarrow> (error + addr) \<times> world" where
  "Serializable_constructor target allChildArgs w =
     (let this = length (hp w);
          initial = Suc this;
          rest = Suc (Suc this);
          c = (case target of None \<Rightarrow> ''Serializable'' | Some Class \<Rightarrow> cname Class);
          w1 = w\<lparr>hp := hp w @ [OInstance c [(''_serializeInitArgs'', Ref initial)], OArray [],
                                 OArray allChildArgs]\<rparr>
      in case target of
           None \<Rightarrow> (Inl DirectInstantiation, w1)
         | Some Class \<Rightarrow>
             (case (case resolve (constructor_scope allChildArgs) (globals w1) ''args'' of
                      Inl e \<Rightarrow> Inl e
                    | Inr Declared \<Rightarrow> Inl (TypeError ''args is not iterable'')
                    | Inr (RestArgs args) \<Rightarrow> Inr args
                    | Inr (Global v) \<Rightarrow> iterate (hp w1) v) of
                Inl e \<Rightarrow> (Inl e, w1)
              | Inr args \<Rightarrow>
                  (let w2 = w1\<lparr>console := console w1 @ validateArgs_console (hp w1) c args\<rparr>
                   in case validateArgs (hp w1) c args of
                        Inl e \<Rightarrow> (Inl e, w2)
                      | Inr warnings \<Rightarrow>
                          (let w3 = w2\<lparr>hp := set_prop (hp w2) this ''_serializeInitArgs'' (Ref rest)\<rparr>
                           in case register Class w3 of
                                (Inl e, w4) \<Rightarrow> (Inl e, w4)
                              | (Inr u, w4) \<Rightarrow> (Inr this, w4)))))"

text \<open>\<^verbatim>\<open>new Class(...args)\<close> for a registered class, by the shape of its constructor.\<close>

definition construct :: "cls \<Rightarrow> jsval list \<Rightarrow> world \<Rightarrow> (error + addr) \<times> world" where
  "construct Class args w =
     (case ctor Class of
        CallsSuper f g \<Rightarrow>
          (case Serializable_constructor (Some Class) (f args) w of
             (Inl e, w1) \<Rightarrow> (Inl e, w1)
           | (Inr this, w1) \<Rightarrow>
               (Inr this, w1\<lparr>hp := fold (\<lambda>(k, v) h. set_prop h this k v) (g args) (hp w1)\<rparr>))
      | NoSuper f \<Rightarrow> (Inr (length (hp w)), w\<lparr>hp := hp w @ [f args]\<rparr>))"

subsection \<open>Deserialization\<close>

text \<open>
  A loop whose body can throw and updates a state that survives the exception (the heap,
  the registry, the \<^verbatim>\<open>references\<close> map).
\<close>

fun map_state :: "('a \<Rightarrow> 's \<Rightarrow> (error + 'b) \<times> 's) \<Rightarrow> 'a list \<Rightarrow> 's \<Rightarrow> (error + 'b list) \<times> 's" where
  "map_state f [] s = (Inr [], s)"
| "map_state f (x # xs) s =
     (case f x s of
        (Inl e, s') \<Rightarrow> (Inl e, s')
      | (Inr y, s') \<Rightarrow>
          (case map_state f xs s' of
             (Inl e, s'') \<Rightarrow> (Inl e, s'')
           | (Inr ys, s'') \<Rightarrow> (Inr (y # ys), s'')))"

text \<open>
  The \<^verbatim>\<open>references\<close> map of one \<^verbatim>\<open>_deserializeValue\<close> call. Its keys are whatever \<^verbatim>\<open>value.id\<close>
  evaluates to. A primitive key is found again by value; a key that is itself an array or an
  object of the parsed text is a fresh object and no later \<^verbatim>\<open>get\<close> can present it again.
\<close>

type_synonym refs = "prim \<rightharpoonup> jsval"

definition refs_set :: "refs \<Rightarrow> node \<Rightarrow> jsval \<Rightarrow> refs" where
  "refs_set r k v = (case k of NPrim p \<Rightarrow> r(p \<mapsto> v) | _ \<Rightarrow> r)"

definition refs_get :: "refs \<Rightarrow> node \<Rightarrow> jsval" where
  "refs_get r k =
     (case k of
        NPrim p \<Rightarrow> (case r p of Some v \<Rightarrow> v | None \<Rightarrow> Prim PUndefined)
      | _ \<Rightarrow> Prim PUndefined)"

text \<open>\<^verbatim>\<open>value.k\<close> on a parsed object: \<^verbatim>\<open>undefined\<close> when the key is absent.\<close>

definition get_field :: "(string \<times> node) list \<Rightarrow> string \<Rightarrow> node" where
  "get_field fs k = (case map_of fs k of Some t \<Rightarrow> t | None \<Rightarrow> NPrim PUndefined)"

text \<open>\<^verbatim>\<open>x.map(...)\<close> exists on arrays only.\<close>

definition as_array :: "node \<Rightarrow> error + node list" where
  "as_array t = (case t of NArr xs \<Rightarrow> Inr xs | _ \<Rightarrow> Inl (TypeError ''map is not a function''))"

text \<open>
  \<^verbatim>\<open>Object.entries(x)\<close> on a parsed value. For a string or an array the host enumerates index
  keys, which the model does not follow.
\<close>

definition object_entries :: "node \<Rightarrow> error + (string \<times> node) list" where
  "object_entries t =
     (case t of
        NObj fs \<Rightarrow> Inr fs
      | NArr xs \<Rightarrow> Inl (Unmodelled ''Object.entries of an array'')
      | NPrim PUndefined \<Rightarrow> Inl (TypeError ''Cannot convert undefined or null to object'')
      | NPrim PNull \<Rightarrow> Inl (TypeError ''Cannot convert undefined or null to object'')
      | NPrim (PStr s) \<Rightarrow> Inl (Unmodelled ''Object.entries of a string'')
      | NPrim p \<Rightarrow> Inr [])"

text \<open>
  A parsed value that \<^verbatim>\<open>deserializeInternal\<close> returns as it is (its \<^verbatim>\<open>else\<close> branch): the
  arrays and objects of the parsed text become heap objects.
\<close>

fun materialize :: "node \<Rightarrow> heap \<Rightarrow> jsval \<times> heap"
  and materialize_elems :: "node list \<Rightarrow> heap \<Rightarrow> jsval list \<times> heap"
  and materialize_fields :: "(string \<times> node) list \<Rightarrow> heap \<Rightarrow> (string \<times> jsval) list \<times> heap" where
  "materialize (NPrim p) h = (Prim p, h)"
| "materialize (NArr xs) h =
     (case materialize_elems xs h of (vs, h') \<Rightarrow> (Ref (length h'), h' @ [OArray vs]))"
| "materialize (NObj fs) h =
     (case materialize_fields fs h of (ps, h') \<Rightarrow> (Ref (length h'), h' @ [OPlain ps]))"
| "materialize_elems [] h = ([], h)"
| "materialize_elems (x # xs) h =
     (case materialize x h of (v, h') \<Rightarrow>
        (case materialize_elems xs h' of (vs, h'') \<Rightarrow> (v # vs, h'')))"
| "materialize_fields [] h = ([], h)"
| "materialize_fields ((k, x) # fs) h =
     (case materialize x h of (v, h') \<Rightarrow>
        (case materialize_fields fs h' of (ps, h'') \<Rightarrow> ((k, v) # ps, h'')))"

text \<open>
  \<^verbatim>\<open>JSON.parse(json)\<close> for an argument of any type: the host converts it to a string first.
  The number \<open>5\<close> reads as the text \<^verbatim>\<open>5\<close>, which parses; \<^verbatim>\<open>undefined\<close> and an object do not.
\<close>

definition JSON_parse_value :: "node \<Rightarrow> error + node" where
  "JSON_parse_value t =
     (case t of
        NPrim (PStr s) \<Rightarrow> (case JSON_parse s of Some u \<Rightarrow> Inr u | None \<Rightarrow> Inl InvalidJSON)
      | NPrim (PNum i) \<Rightarrow> Inr (NPrim (PNum i))
      | NPrim (PBool b) \<Rightarrow> Inr (NPrim (PBool b))
      | NPrim PNull \<Rightarrow> Inr (NPrim PNull)
      | NPrim (PBigInt i) \<Rightarrow> Inr (NPrim (PNum i))
      | NPrim p \<Rightarrow> Inl InvalidJSON
      | NObj fs \<Rightarrow> Inl InvalidJSON
      | NArr xs \<Rightarrow> Inl (Unmodelled ''JSON.parse of an array''))"

text \<open>
  \<^verbatim>\<open>t.k\<close> for a node \<open>t\<close> of any shape, as in the destructuring of \<^verbatim>\<open>deserialize\<close>: only an
  object has the keys.
\<close>

definition node_member :: "node \<Rightarrow> string \<Rightarrow> node" where
  "node_member t k = (case t of NObj fs \<Rightarrow> get_field fs k | _ \<Rightarrow> NPrim PUndefined)"

text \<open>\<^verbatim>\<open>new Map(pairs)\<close> and \<^verbatim>\<open>new Set(items)\<close>: a key that is already present keeps its place.\<close>

fun map_set :: "jsval \<Rightarrow> jsval \<Rightarrow> (jsval \<times> jsval) list \<Rightarrow> (jsval \<times> jsval) list" where
  "map_set k v [] = [(k, v)]"
| "map_set k v ((k', v') # kvs) =
     (if k = k' then (k, v) # kvs else (k', v') # map_set k v kvs)"

definition new_Map :: "(jsval \<times> jsval) list \<Rightarrow> (jsval \<times> jsval) list" where
  "new_Map pairs = fold (\<lambda>(k, v) m. map_set k v m) pairs []"

definition new_Set :: "jsval list \<Rightarrow> jsval list" where
  "new_Set items = fold (\<lambda>x s. if x \<in> set s then s else s @ [x]) items []"

text \<open>
  The destructuring \<^verbatim>\<open>([k, v])\<close> of one element of a Map node's data: the first two elements
  of an array, \<^verbatim>\<open>undefined\<close> where it is shorter.
\<close>

definition pair_of :: "node \<Rightarrow> error + (node \<times> node)" where
  "pair_of t =
     (case t of
        NArr [] \<Rightarrow> Inr (NPrim PUndefined, NPrim PUndefined)
      | NArr [k] \<Rightarrow> Inr (k, NPrim PUndefined)
      | NArr (k # v # rest) \<Rightarrow> Inr (k, v)
      | NPrim (PStr s) \<Rightarrow> Inl (Unmodelled ''destructuring a string'')
      | _ \<Rightarrow> Inl (TypeError ''value is not iterable''))"

text \<open>
  The host constructors that the decoder calls on one field of a node. Each is given for
  the field shapes that the encoder writes and for the primitives whose conversion is
  plain; for the rest the host converts the field by rules the model does not follow.
\<close>

definition new_Date :: "node \<Rightarrow> error + obj" where
  "new_Date t =
     (case t of
        NPrim (PStr (Iso ms)) \<Rightarrow> Inr (ODate (Some ms))
      | NPrim (PNum i) \<Rightarrow> Inr (ODate (if \<bar>i\<bar> \<le> 8640000000000000 then Some i else None))
      | NPrim PUndefined \<Rightarrow> Inr (ODate None)
      | NPrim PNull \<Rightarrow> Inr (ODate (Some 0))
      | NPrim (PBool b) \<Rightarrow> Inr (ODate (Some (if b then 1 else 0)))
      | NPrim (PBigInt i) \<Rightarrow> Inl (TypeError ''Cannot convert a BigInt value to a number'')
      | _ \<Rightarrow> Inl (Unmodelled ''Date of this value''))"

definition new_RegExp :: "node \<Rightarrow> node \<Rightarrow> error + obj" where
  "new_RegExp src fl =
     (case (src, fl) of
        (NPrim (PStr s), NPrim (PStr f)) \<Rightarrow> Inr (ORegExp s f)
      | (NPrim (PStr s), NPrim PUndefined) \<Rightarrow> Inr (ORegExp s (Lit []))
      | (NPrim PUndefined, NPrim (PStr f)) \<Rightarrow> Inr (ORegExp (Lit ''(?:)'') f)
      | (NPrim PUndefined, NPrim PUndefined) \<Rightarrow> Inr (ORegExp (Lit ''(?:)'') (Lit []))
      | _ \<Rightarrow> Inl (Unmodelled ''RegExp of these values''))"

definition new_Error :: "node \<Rightarrow> node \<Rightarrow> node \<Rightarrow> error + obj" where
  "new_Error msg nm stk =
     (case (msg, nm, stk) of
        (NPrim m, NPrim n, NPrim s) \<Rightarrow>
          (case m of
             PUndefined \<Rightarrow> Inr (OError n (PStr (Lit [])) s)
           | PStr x \<Rightarrow> Inr (OError n (PStr x) s)
           | PNum i \<Rightarrow> Inr (OError n (PStr (decimal i)) s)
           | PBigInt i \<Rightarrow> Inr (OError n (PStr (decimal i)) s)
           | PBool b \<Rightarrow> Inr (OError n (PStr (Json (NPrim (PBool b)))) s)
           | PNull \<Rightarrow> Inr (OError n (PStr (Json (NPrim PNull))) s)
           | PSymbol y \<Rightarrow> Inl (TypeError ''Cannot convert a Symbol value to a string'')
           | PFunction f \<Rightarrow> Inl (Unmodelled ''Error message of a function''))
      | _ \<Rightarrow> Inl (Unmodelled ''Error of these values''))"

definition new_BigInt :: "node \<Rightarrow> error + prim" where
  "new_BigInt t =
     (case t of
        NPrim (PStr (Json (NPrim (PNum i)))) \<Rightarrow> Inr (PBigInt i)
      | NPrim (PNum i) \<Rightarrow> Inr (PBigInt i)
      | NPrim (PBigInt i) \<Rightarrow> Inr (PBigInt i)
      | NPrim (PBool b) \<Rightarrow> Inr (PBigInt (if b then 1 else 0))
      | NPrim PUndefined \<Rightarrow> Inl (TypeError ''Cannot convert undefined to a BigInt'')
      | NPrim PNull \<Rightarrow> Inl (TypeError ''Cannot convert null to a BigInt'')
      | NPrim (PSymbol s) \<Rightarrow> Inl (TypeError ''Cannot convert a Symbol to a BigInt'')
      | _ \<Rightarrow> Inl (Unmodelled ''BigInt of this value''))"

text \<open>
  \<^verbatim>\<open>new globalThis[value.constructor](value.data)\<close>. The typed-array constructors store an
  element unchanged when it lies in their range; a \<^verbatim>\<open>DataView\<close> cannot be built from an array.
\<close>

definition element_range :: "string \<Rightarrow> (int \<times> int) option" where
  "element_range c =
     map_of [(''Int8Array'', (- 128, 127)), (''Uint8Array'', (0, 255)),
             (''Uint8ClampedArray'', (0, 255)), (''Int16Array'', (- 32768, 32767)),
             (''Uint16Array'', (0, 65535)), (''Int32Array'', (- 2147483648, 2147483647)),
             (''Uint32Array'', (0, 4294967295)), (''Float32Array'', (- 16777216, 16777216)),
             (''Float64Array'', (- 9007199254740992, 9007199254740992))] c"

definition big_element_range :: "string \<Rightarrow> (int \<times> int) option" where
  "big_element_range c =
     map_of [(''BigInt64Array'', (- 9223372036854775808, 9223372036854775807)),
             (''BigUint64Array'', (0, 18446744073709551615))] c"

fun fits :: "string \<Rightarrow> node \<Rightarrow> bool" where
  "fits c (NPrim (PNum i)) =
     (case element_range c of Some (lo, hi) \<Rightarrow> lo \<le> i \<and> i \<le> hi | None \<Rightarrow> False)"
| "fits c (NPrim (PBigInt i)) =
     (case big_element_range c of Some (lo, hi) \<Rightarrow> lo \<le> i \<and> i \<le> hi | None \<Rightarrow> False)"
| "fits c t = False"

fun prim_of :: "node \<Rightarrow> prim" where
  "prim_of (NPrim p) = p"
| "prim_of t = PUndefined"

definition new_TypedArray :: "(string \<times> node) list \<Rightarrow> error + obj" where
  "new_TypedArray fs =
     (case map_of fs ''constructor'' of
        Some (NPrim (PStr (Lit c))) \<Rightarrow>
          (if c = ''DataView'' then Inl (TypeError ''First argument to DataView constructor must be an ArrayBuffer'')
           else if element_range c \<noteq> None \<or> big_element_range c \<noteq> None then
             (case get_field fs ''data'' of
                NArr xs \<Rightarrow>
                  (if list_all (fits c) xs then Inr (OTypedArray c (map prim_of xs))
                   else Inl (Unmodelled ''typed array element conversion''))
              | _ \<Rightarrow> Inl (Unmodelled ''typed array of this value''))
           else Inl (Unmodelled ''another global''))
      | Some t \<Rightarrow> Inl (Unmodelled ''another global'')
      | None \<Rightarrow> Inl (TypeError ''globalThis[value.constructor] is not a constructor''))"

text \<open>
  \<^verbatim>\<open>deserializeInternal\<close> (the closure inside \<^verbatim>\<open>_deserializeValue\<close>), \<^verbatim>\<open>_deserializeValue\<close> and
  the static method \<^verbatim>\<open>deserialize\<close>. The state of \<^verbatim>\<open>deserializeInternal\<close> is the
  \<^verbatim>\<open>references\<close> map of the enclosing call together with the world. The cases of the
  \<^verbatim>\<open>switch\<close> are the source's, in its order.
\<close>

fun deserializeInternal :: "nat \<Rightarrow> node \<Rightarrow> refs \<times> world \<Rightarrow> (error + jsval) \<times> (refs \<times> world)"
  and deserializeValue :: "nat \<Rightarrow> node \<Rightarrow> world \<Rightarrow> (error + jsval) \<times> world"
  and deserialize :: "nat \<Rightarrow> node \<Rightarrow> world \<Rightarrow> (error + addr) \<times> world" where
  "deserializeInternal 0 t st = (Inl StackOverflow, st)"
| "deserializeInternal (Suc n) (NPrim p) st = (Inr (Prim p), st)"
| "deserializeInternal (Suc n) (NArr xs) (r, w) =
     (case materialize (NArr xs) (hp w) of (v, h') \<Rightarrow> (Inr v, (r, w\<lparr>hp := h'\<rparr>)))"
| "deserializeInternal (Suc n) (NObj fs) (r, w) =
     (case map_of fs ''__type'' of
        None \<Rightarrow> (case materialize (NObj fs) (hp w) of (v, h') \<Rightarrow> (Inr v, (r, w\<lparr>hp := h'\<rparr>)))
      | Some ty \<Rightarrow>
          (if ty = str ''ref'' then (Inr (refs_get r (get_field fs ''id'')), (r, w))
           else if ty = str ''Serializable'' then
             (case deserialize n (get_field fs ''data'') w of
                (Inl e, w') \<Rightarrow> (Inl e, (r, w'))
              | (Inr a, w') \<Rightarrow> (Inr (Ref a), (refs_set r (get_field fs ''id'') (Ref a), w')))
           else if ty = str ''Array'' then
             (case as_array (get_field fs ''data'') of
                Inl e \<Rightarrow> (Inl e, (r, w))
              | Inr xs \<Rightarrow>
                  (case map_state (\<lambda>x s. deserializeInternal n x s) xs (r, w) of
                     (Inl e, s') \<Rightarrow> (Inl e, s')
                   | (Inr vs, (r', w')) \<Rightarrow>
                       (let a = length (hp w')
                        in (Inr (Ref a),
                            (refs_set r' (get_field fs ''id'') (Ref a), w'\<lparr>hp := hp w' @ [OArray vs]\<rparr>)))))
           else if ty = str ''Map'' then
             (case as_array (get_field fs ''data'') of
                Inl e \<Rightarrow> (Inl e, (r, w))
              | Inr xs \<Rightarrow>
                  (case map_state (\<lambda>x s.
                           case pair_of x of
                             Inl e \<Rightarrow> (Inl e, s)
                           | Inr (k, v) \<Rightarrow>
                               (case deserializeInternal n k s of
                                  (Inl e, s1) \<Rightarrow> (Inl e, s1)
                                | (Inr dk, s1) \<Rightarrow>
                                    (case deserializeInternal n v s1 of
                                       (Inl e, s2) \<Rightarrow> (Inl e, s2)
                                     | (Inr dv, s2) \<Rightarrow> (Inr (dk, dv), s2)))) xs (r, w) of
                     (Inl e, s') \<Rightarrow> (Inl e, s')
                   | (Inr kvs, (r', w')) \<Rightarrow>
                       (let a = length (hp w')
                        in (Inr (Ref a),
                            (refs_set r' (get_field fs ''id'') (Ref a),
                             w'\<lparr>hp := hp w' @ [OMap (new_Map kvs)]\<rparr>)))))
           else if ty = str ''Set'' then
             (case as_array (get_field fs ''data'') of
                Inl e \<Rightarrow> (Inl e, (r, w))
              | Inr xs \<Rightarrow>
                  (case map_state (\<lambda>x s. deserializeInternal n x s) xs (r, w) of
                     (Inl e, s') \<Rightarrow> (Inl e, s')
                   | (Inr vs, (r', w')) \<Rightarrow>
                       (let a = length (hp w')
                        in (Inr (Ref a),
                            (refs_set r' (get_field fs ''id'') (Ref a),
                             w'\<lparr>hp := hp w' @ [OSet (new_Set vs)]\<rparr>)))))
           else if ty = str ''Date'' then
             (case new_Date (get_field fs ''data'') of
                Inl e \<Rightarrow> (Inl e, (r, w))
              | Inr ob \<Rightarrow> (Inr (Ref (length (hp w))), (r, w\<lparr>hp := hp w @ [ob]\<rparr>)))
           else if ty = str ''RegExp'' then
             (case new_RegExp (get_field fs ''source'') (get_field fs ''flags'') of
                Inl e \<Rightarrow> (Inl e, (r, w))
              | Inr ob \<Rightarrow> (Inr (Ref (length (hp w))), (r, w\<lparr>hp := hp w @ [ob]\<rparr>)))
           else if ty = str ''Error'' then
             (case new_Error (get_field fs ''message'') (get_field fs ''name'') (get_field fs ''stack'') of
                Inl e \<Rightarrow> (Inl e, (r, w))
              | Inr ob \<Rightarrow> (Inr (Ref (length (hp w))), (r, w\<lparr>hp := hp w @ [ob]\<rparr>)))
           else if ty = str ''TypedArray'' then
             (case new_TypedArray fs of
                Inl e \<Rightarrow> (Inl e, (r, w))
              | Inr ob \<Rightarrow> (Inr (Ref (length (hp w))), (r, w\<lparr>hp := hp w @ [ob]\<rparr>)))
           else if ty = str ''BigInt'' then
             (case new_BigInt (get_field fs ''data'') of
                Inl e \<Rightarrow> (Inl e, (r, w))
              | Inr p \<Rightarrow> (Inr (Prim p), (r, w)))
           else if ty = str ''undefined'' then (Inr (Prim PUndefined), (r, w))
           else if ty = str ''Object'' then
             (let a = length (hp w);
                  w1 = w\<lparr>hp := hp w @ [OPlain []]\<rparr>;
                  r1 = refs_set r (get_field fs ''id'') (Ref a)
              in case object_entries (get_field fs ''data'') of
                   Inl e \<Rightarrow> (Inl e, (r1, w1))
                 | Inr es \<Rightarrow>
                     (case map_state (\<lambda>(k, x) s.
                              case deserializeInternal n x s of
                                (Inl e, s1) \<Rightarrow> (Inl e, s1)
                              | (Inr v, (r2, w2)) \<Rightarrow>
                                  (Inr (), (r2, w2\<lparr>hp := set_prop (hp w2) a k v\<rparr>))) es (r1, w1) of
                        (Inl e, s') \<Rightarrow> (Inl e, s')
                      | (Inr us, s') \<Rightarrow> (Inr (Ref a), s')))
           else (Inl (UnsupportedTag ty),
                 (r, w\<lparr>console := console w @ [''Serializable log debug: unsupported __type'']\<rparr>))))"
| "deserializeValue 0 t w = (Inl StackOverflow, w)"
| "deserializeValue (Suc n) t w =
     (case deserializeInternal n t (Map.empty, w) of (res, (r, w')) \<Rightarrow> (res, w'))"
| "deserialize 0 json w = (Inl StackOverflow, w)"
| "deserialize (Suc n) json w =
     (case JSON_parse_value json of
        Inl e \<Rightarrow> (Inl e, w)
      | Inr parsed \<Rightarrow>
          (if parsed = NPrim PNull then (Inl (TypeError ''Cannot destructure null''), w)
           else
             (let className = node_member parsed ''className'';
                  serializeInitArgs = node_member parsed ''serializeInitArgs'';
                  properties = node_member parsed ''properties''
              in case (case className of
                         NPrim (PStr (Lit c)) \<Rightarrow> classRegistry w c
                       | _ \<Rightarrow> None) of
                   None \<Rightarrow> (Inl (ClassNotFound className), w)
                 | Some Class \<Rightarrow>
                     (case as_array serializeInitArgs of
                        Inl e \<Rightarrow> (Inl e, w)
                      | Inr xs \<Rightarrow>
                          (case map_state (\<lambda>x s. deserializeValue n x s) xs w of
                             (Inl e, w1) \<Rightarrow> (Inl e, w1)
                           | (Inr deserializedArgs, w1) \<Rightarrow>
                               (case construct Class deserializedArgs w1 of
                                  (Inl e, w2) \<Rightarrow> (Inl e, w2)
                                | (Inr instance, w2) \<Rightarrow>
                                    (case object_entries properties of
                                       Inl e \<Rightarrow> (Inl e, w2)
                                     | Inr es \<Rightarrow>
                                         (case map_state (\<lambda>(k, x) s.
                                                  case deserializeValue n x s of
                                                    (Inl e, s1) \<Rightarrow> (Inl e, s1)
                                                  | (Inr v, s1) \<Rightarrow>
                                                      (Inr (), s1\<lparr>hp := set_prop (hp s1) instance k v\<rparr>))
                                                es w2 of
                                            (Inl e, w3) \<Rightarrow> (Inl e, w3)
                                          | (Inr us, w3) \<Rightarrow> (Inr instance, w3)))))))))"

subsection \<open>Serialization as a step on the world\<close>

text \<open>
  The same three functions as transformers of the world: every call takes the world and
  hands it on, as every call of the source could write to it. What the source writes is
  one line on the console, before the final \<^verbatim>\<open>throw\<close> of \<^verbatim>\<open>recursiveSerialize\<close>; the \<^verbatim>\<open>WeakMap\<close>
  and the counter are local to \<^verbatim>\<open>_serializeValue\<close> and the nodes are new. The functions
  \<open>recursiveSerialize\<close>, \<open>serializeValue\<close> and \<open>serialize\<close> above give the results of these
  (\<open>serialize_io_result\<close> below).
\<close>

fun recursiveSerialize_io :: "nat \<Rightarrow> jsval \<Rightarrow> tracker \<times> world \<Rightarrow> (error + node) \<times> (tracker \<times> world)"
  and serializeValue_io :: "nat \<Rightarrow> jsval \<Rightarrow> world \<Rightarrow> (error + node) \<times> world"
  and serialize_io :: "nat \<Rightarrow> addr \<Rightarrow> world \<Rightarrow> (error + jstr) \<times> world" where
  "recursiveSerialize_io 0 v st = (Inl StackOverflow, st)"
| "recursiveSerialize_io (Suc n) (Ref a) (tr, w) =
     (case deref (hp w) a of
        None \<Rightarrow> (Inl (DanglingAddress a), (tr, w))
      | Some (OInstance c ps) \<Rightarrow>
          (case seen tr a of
             Some i \<Rightarrow> (Inr (ref_node i), (tr, w))
           | None \<Rightarrow>
               (let i = current tr;
                    tr' = tr\<lparr>seen := (seen tr)(a \<mapsto> i), current := Suc i\<rparr>
                in case serialize_io n a w of
                     (Inl e, w') \<Rightarrow> (Inl e, (tr', w'))
                   | (Inr s, w') \<Rightarrow>
                       (Inr (NObj [(''__type'', str ''Serializable''), (''id'', num i),
                                   (''data'', NPrim (PStr s))]), (tr', w'))))
      | Some (OArray xs) \<Rightarrow>
          (case map_state (\<lambda>x s. recursiveSerialize_io n x s) xs (tr, w) of
             (Inl e, s') \<Rightarrow> (Inl e, s')
           | (Inr ys, s') \<Rightarrow> (Inr (NObj [(''__type'', str ''Array''), (''data'', NArr ys)]), s'))
      | Some (OMap kvs) \<Rightarrow>
          (case map_state (\<lambda>(k, v) s.
                   case recursiveSerialize_io n k s of
                     (Inl e, s1) \<Rightarrow> (Inl e, s1)
                   | (Inr nk, s1) \<Rightarrow>
                       (case recursiveSerialize_io n v s1 of
                          (Inl e, s2) \<Rightarrow> (Inl e, s2)
                        | (Inr nv, s2) \<Rightarrow> (Inr (NArr [nk, nv]), s2))) kvs (tr, w) of
             (Inl e, s') \<Rightarrow> (Inl e, s')
           | (Inr ys, s') \<Rightarrow> (Inr (NObj [(''__type'', str ''Map''), (''data'', NArr ys)]), s'))
      | Some (OSet xs) \<Rightarrow>
          (case map_state (\<lambda>x s. recursiveSerialize_io n x s) xs (tr, w) of
             (Inl e, s') \<Rightarrow> (Inl e, s')
           | (Inr ys, s') \<Rightarrow> (Inr (NObj [(''__type'', str ''Set''), (''data'', NArr ys)]), s'))
      | Some (OTypedArray c xs) \<Rightarrow>
          (Inr (NObj [(''__type'', str ''TypedArray''), (''constructor'', str c),
                      (''data'', NArr (map NPrim xs))]), (tr, w))
      | Some (ODate t) \<Rightarrow>
          (case t of
             None \<Rightarrow> (Inl (RangeError ''Invalid time value''), (tr, w))
           | Some ms \<Rightarrow>
               (Inr (NObj [(''__type'', str ''Date''), (''data'', NPrim (PStr (Iso ms)))]), (tr, w)))
      | Some (ORegExp src fl) \<Rightarrow>
          (Inr (NObj [(''__type'', str ''RegExp''), (''source'', NPrim (PStr src)),
                      (''flags'', NPrim (PStr fl))]), (tr, w))
      | Some (OError nm msg stk) \<Rightarrow>
          (Inr (NObj [(''__type'', str ''Error''), (''name'', NPrim nm), (''message'', NPrim msg),
                      (''stack'', NPrim stk)]), (tr, w))
      | Some (OPlain ps) \<Rightarrow>
          (case seen tr a of
             Some i \<Rightarrow> (Inr (ref_node i), (tr, w))
           | None \<Rightarrow>
               (let i = current tr;
                    tr' = tr\<lparr>seen := (seen tr)(a \<mapsto> i), current := Suc i\<rparr>
                in case map_state (\<lambda>(k, v) s.
                          case recursiveSerialize_io n v s of
                            (Inl e, s1) \<Rightarrow> (Inl e, s1)
                          | (Inr nv, s1) \<Rightarrow> (Inr (k, nv), s1)) ps (tr', w) of
                     (Inl e, s') \<Rightarrow> (Inl e, s')
                   | (Inr fs, s') \<Rightarrow>
                       (Inr (NObj [(''__type'', str ''Object''), (''id'', num i),
                                   (''data'', NObj fs)]), s')))
      | Some (OOther c) \<Rightarrow>
          (Inl (UnsupportedType (js_typeof (Ref a))),
           (tr, w\<lparr>console := console w @ [''Serializable log debug: unsupported '' @ js_typeof (Ref a)]\<rparr>)))"
| "recursiveSerialize_io (Suc n) (Prim p) (tr, w) =
     (case p of
        PBigInt i \<Rightarrow>
          (Inr (NObj [(''__type'', str ''BigInt''), (''data'', NPrim (PStr (decimal i)))]), (tr, w))
      | PUndefined \<Rightarrow> (Inr (NObj [(''__type'', str ''undefined'')]), (tr, w))
      | _ \<Rightarrow> (Inr (NPrim p), (tr, w)))"
| "serializeValue_io 0 v w = (Inl StackOverflow, w)"
| "serializeValue_io (Suc n) v w =
     (case recursiveSerialize_io n v (fresh_tracker, w) of (res, (tr, w')) \<Rightarrow> (res, w'))"
| "serialize_io 0 a w = (Inl StackOverflow, w)"
| "serialize_io (Suc n) a w =
     (case deref (hp w) a of
        Some (OInstance c ps) \<Rightarrow>
          (case map_state (\<lambda>(k, v) s.
                   case serializeValue_io n v s of
                     (Inl e, s1) \<Rightarrow> (Inl e, s1)
                   | (Inr t, s1) \<Rightarrow> (Inr (k, t), s1)) ps w of
             (Inl e, w1) \<Rightarrow> (Inl e, w1)
           | (Inr props, w1) \<Rightarrow>
               (case map_of ps ''_serializeInitArgs'' of
                  Some (Ref b) \<Rightarrow>
                    (case deref (hp w1) b of
                       Some (OArray as) \<Rightarrow>
                         (case map_state (\<lambda>x s. serializeValue_io n x s) as w1 of
                            (Inl e, w2) \<Rightarrow> (Inl e, w2)
                          | (Inr args, w2) \<Rightarrow>
                              (JSON_stringify
                                 (NObj [(''className'', str c), (''serializeInitArgs'', NArr args),
                                        (''properties'', NObj props)]), w2))
                     | _ \<Rightarrow> (Inl (TypeError ''this._serializeInitArgs.map is not a function''), w1))
                | _ \<Rightarrow> (Inl (TypeError ''this._serializeInitArgs.map is not a function''), w1)))
      | _ \<Rightarrow> (Inl (TypeError ''serialize is not a function''), w))"

subsection \<open>The operations of the component\<close>

text \<open>
  The four entry points as steps on the world: \<^verbatim>\<open>Serializable.register(Class)\<close>,
  \<^verbatim>\<open>new Class(...args)\<close> (and \<^verbatim>\<open>new Serializable(...args)\<close>), \<^verbatim>\<open>x.serialize()\<close> and
  \<^verbatim>\<open>Serializable.deserialize(json)\<close>.
\<close>

datatype call =
    Register cls
  | New cls "jsval list"
  | NewBase "jsval list"
  | Serialize addr
  | Deserialize node

datatype result = Done | Instance addr | Text jstr

definition exec :: "nat \<Rightarrow> call \<Rightarrow> world \<Rightarrow> (error + result) \<times> world" where
  "exec n c w =
     (case c of
        Register Class \<Rightarrow>
          (case register Class w of (Inl e, w') \<Rightarrow> (Inl e, w') | (Inr u, w') \<Rightarrow> (Inr Done, w'))
      | New Class args \<Rightarrow>
          (case construct Class args w of
             (Inl e, w') \<Rightarrow> (Inl e, w')
           | (Inr a, w') \<Rightarrow> (Inr (Instance a), w'))
      | NewBase args \<Rightarrow>
          (case Serializable_constructor None args w of
             (Inl e, w') \<Rightarrow> (Inl e, w')
           | (Inr a, w') \<Rightarrow> (Inr (Instance a), w'))
      | Serialize a \<Rightarrow>
          (case serialize_io n a w of
             (Inl e, w') \<Rightarrow> (Inl e, w')
           | (Inr s, w') \<Rightarrow> (Inr (Text s), w'))
      | Deserialize json \<Rightarrow>
          (case deserialize n json w of
             (Inl e, w') \<Rightarrow> (Inl e, w')
           | (Inr a, w') \<Rightarrow> (Inr (Instance a), w')))"

subsection \<open>Example programs\<close>

text \<open>
  \<^verbatim>\<open>class Point extends Serializable { static { Serializable.register(this) } }\<close>, a world
  in which it is registered and one instance exists, and the text of that instance.
\<close>

definition Point_class :: cls where
  "Point_class = \<lparr>cname = ''Point'', ctor = CallsSuper (\<lambda>args. args) (\<lambda>args. [])\<rparr>"

definition empty_world :: world where
  "empty_world = \<lparr>hp = [], classRegistry = Map.empty, globals = Map.empty, console = []\<rparr>"

definition Point_world :: world where
  "Point_world =
     \<lparr>hp = [OInstance ''Point'' [(''_serializeInitArgs'', Ref 1)], OArray []],
      classRegistry = [''Point'' \<mapsto> Point_class], globals = Map.empty, console = []\<rparr>"

definition Point_text :: jstr where
  "Point_text =
     Json (NObj [(''className'', str ''Point''), (''serializeInitArgs'', NArr []),
                 (''properties'',
                  NObj [(''_serializeInitArgs'', NObj [(''__type'', str ''Array''), (''data'', NArr [])])])])"

text \<open>Two instances \<open>a\<close> (address 0) and \<open>b\<close> (address 2) with \<^verbatim>\<open>a.prop = b\<close> and \<^verbatim>\<open>b.prop = a\<close>.\<close>

definition cyclic_heap :: heap where
  "cyclic_heap =
     [OInstance ''A'' [(''_serializeInitArgs'', Ref 1), (''prop'', Ref 2)],
      OArray [],
      OInstance ''B'' [(''_serializeInitArgs'', Ref 3), (''prop'', Ref 0)],
      OArray []]"

text \<open>An instance whose property \<^verbatim>\<open>f\<close> holds a function.\<close>

definition callback_heap :: heap where
  "callback_heap =
     [OInstance ''Point'' [(''_serializeInitArgs'', Ref 1), (''f'', Prim (PFunction ''f''))],
      OArray []]"

text \<open>
  An instance whose property \<^verbatim>\<open>items\<close> is an array holding a plain object whose property
  \<^verbatim>\<open>c\<close> is an object of a class that is not Serializable.
\<close>

definition custom_heap :: heap where
  "custom_heap =
     [OInstance ''Point'' [(''_serializeInitArgs'', Ref 1), (''items'', Ref 2)],
      OArray [],
      OArray [Prim (PNum 1), Ref 3],
      OPlain [(''c'', Ref 4)],
      OOther ''Custom'']"

text \<open>The node \<^verbatim>\<open>{"__type":"ref","id":99}\<close>.\<close>

definition ref99 :: node where
  "ref99 = NObj [(''__type'', str ''ref''), (''id'', NPrim (PNum 99))]"

subsection \<open>Notions used in the statements\<close>

text \<open>\<^verbatim>\<open>_deserializeValue(_serializeValue(v))\<close>, both with the same stack budget.\<close>

definition roundtrip :: "nat \<Rightarrow> jsval \<Rightarrow> world \<Rightarrow> (error + jsval) \<times> world" where
  "roundtrip n v w =
     (case serializeValue n (hp w) v of
        Inl e \<Rightarrow> (Inl e, w)
      | Inr t \<Rightarrow> deserializeValue n t w)"

text \<open>
  How a tracker evolves. \<open>extends tr tr'\<close>: every id of \<open>tr\<close> is kept, the counter does not
  decrease, and every id that is new in \<open>tr'\<close> was taken from the counter in between.
  \<open>tracker_inv tr\<close>: every id is below the counter and no two objects share an id.
  \<open>tracked h a\<close>: the object at \<open>a\<close> is of a kind that gets an id (an instance or a plain
  object).
\<close>

definition extends :: "tracker \<Rightarrow> tracker \<Rightarrow> bool" where
  "extends tr tr' \<longleftrightarrow>
     (\<forall>b i. seen tr b = Some i \<longrightarrow> seen tr' b = Some i) \<and>
     current tr \<le> current tr' \<and>
     (\<forall>b i. seen tr' b = Some i \<longrightarrow> seen tr b = Some i \<or> (current tr \<le> i \<and> i < current tr'))"

definition tracker_inv :: "tracker \<Rightarrow> bool" where
  "tracker_inv tr \<longleftrightarrow>
     (\<forall>b i. seen tr b = Some i \<longrightarrow> i < current tr) \<and>
     (\<forall>b c i. seen tr b = Some i \<and> seen tr c = Some i \<longrightarrow> b = c)"

definition grows :: "tracker \<Rightarrow> tracker \<Rightarrow> bool" where
  "grows tr tr' \<longleftrightarrow> extends tr tr' \<and> (tracker_inv tr \<longrightarrow> tracker_inv tr')"

definition tracked :: "heap \<Rightarrow> addr \<Rightarrow> bool" where
  "tracked h a =
     (case deref h a of
        Some (OInstance c ps) \<Rightarrow> True
      | Some (OPlain ps) \<Rightarrow> True
      | _ \<Rightarrow> False)"




text \<open>
  The value graph. The children of a value are what serialization descends into: the own
  properties of an instance or plain object, the elements of an array or Set, the keys and
  values of a Map. \<open>reaches h v u\<close>: \<open>u\<close> is \<open>v\<close> or lies below it. \<open>unsupported h v\<close>: \<open>v\<close> is an
  object of no supported kind. \<open>clean h v\<close>: no unsupported object lies at or below \<open>v\<close>.
\<close>

fun children_of :: "obj \<Rightarrow> jsval list" where
  "children_of (OInstance c ps) = map snd ps"
| "children_of (OArray xs) = xs"
| "children_of (OMap kvs) = concat (map (\<lambda>(k, v). [k, v]) kvs)"
| "children_of (OSet xs) = xs"
| "children_of (OPlain ps) = map snd ps"
| "children_of ob = []"

definition children :: "heap \<Rightarrow> jsval \<Rightarrow> jsval list" where
  "children h v =
     (case v of
        Prim p \<Rightarrow> []
      | Ref a \<Rightarrow> (case deref h a of None \<Rightarrow> [] | Some ob \<Rightarrow> children_of ob))"

inductive reaches :: "heap \<Rightarrow> jsval \<Rightarrow> jsval \<Rightarrow> bool" for h :: heap and v :: jsval where
  reaches_self: "reaches h v v"
| reaches_step: "reaches h v u \<Longrightarrow> u' \<in> set (children h u) \<Longrightarrow> reaches h v u'"

definition unsupported :: "heap \<Rightarrow> jsval \<Rightarrow> bool" where
  "unsupported h v =
     (case v of
        Prim p \<Rightarrow> False
      | Ref a \<Rightarrow> (case deref h a of Some (OOther c) \<Rightarrow> True | _ \<Rightarrow> False))"

definition clean :: "heap \<Rightarrow> jsval \<Rightarrow> bool" where
  "clean h v \<longleftrightarrow> (\<forall>u. reaches h v u \<longrightarrow> \<not> unsupported h u)"

text \<open>
  Bookkeeping for the traversal. \<open>covered h tr v\<close>: \<open>v\<close> is a primitive, an object with an id
  in \<open>tr\<close>, or an object without ids whose children are covered. \<open>closed_at h tr a\<close>: the
  children of the plain object at \<open>a\<close> are covered, or the instance at \<open>a\<close> is clean.
  \<open>seals h tr tr'\<close>: \<open>tr'\<close> has the ids of \<open>tr\<close> and every object that is new in it is closed.
\<close>

fun untracked :: "obj \<Rightarrow> bool" where
  "untracked (OInstance c ps) = False"
| "untracked (OPlain ps) = False"
| "untracked (OOther c) = False"
| "untracked ob = True"

inductive covered :: "heap \<Rightarrow> tracker \<Rightarrow> jsval \<Rightarrow> bool" for h :: heap and tr :: tracker where
  cov_prim: "covered h tr (Prim p)"
| cov_seen: "tracked h a \<Longrightarrow> seen tr a \<noteq> None \<Longrightarrow> covered h tr (Ref a)"
| cov_untracked: "deref h a = Some ob \<Longrightarrow> untracked ob \<Longrightarrow>
     \<forall>x\<in>set (children_of ob). covered h tr x \<Longrightarrow> covered h tr (Ref a)"

definition closed_at :: "heap \<Rightarrow> tracker \<Rightarrow> addr \<Rightarrow> bool" where
  "closed_at h tr a =
     (case deref h a of
        Some (OPlain ps) \<Rightarrow> (\<forall>x\<in>set (map snd ps). covered h tr x)
      | Some (OInstance c ps) \<Rightarrow> clean h (Ref a)
      | _ \<Rightarrow> True)"

definition seals :: "heap \<Rightarrow> tracker \<Rightarrow> tracker \<Rightarrow> bool" where
  "seals h tr tr' \<longleftrightarrow>
     dom (seen tr) \<subseteq> dom (seen tr') \<and>
     (\<forall>a. a \<in> dom (seen tr') \<and> a \<notin> dom (seen tr) \<longrightarrow> closed_at h tr' a)"

subsection \<open>Effects of serialization\<close>

text \<open>
  \<open>logs_only w w'\<close>: between \<open>w\<close> and \<open>w'\<close> nothing happened but output to the console.
\<close>

definition logs_only :: "world \<Rightarrow> world \<Rightarrow> bool" where
  "logs_only w w' \<longleftrightarrow>
     hp w' = hp w \<and> classRegistry w' = classRegistry w \<and> globals w' = globals w \<and>
     (\<exists>ls. console w' = console w @ ls)"

text \<open>
  \<open>agrees io pure\<close>: the step \<open>io\<close> returned the result and the tracker of \<open>pure\<close>.
\<close>

definition agrees :: "(error + 'a) \<times> (tracker \<times> world) \<Rightarrow> error + ('a \<times> tracker) \<Rightarrow> bool" where
  "agrees io pure =
     (case pure of
        Inl e \<Rightarrow> fst io = Inl e
      | Inr (y, t) \<Rightarrow> fst io = Inr y \<and> fst (snd io) = t)"

subsection \<open>Constructors that complete\<close>



subsection \<open>Container data\<close>



text \<open>
  A world whose array (address 0) holds mixed scalars, \<^verbatim>\<open>undefined\<close>, a Map (address 1) with
  a Date as a value and a RegExp as a key, and a Set (address 2) that holds the Date; a
  world with an invalid Date; and a world with a Map that holds an instance of \<^verbatim>\<open>Point\<close>.
\<close>

definition nested_world :: world where
  "nested_world =
     \<lparr>hp = [OArray [Prim (PNum 1), Prim (PStr (Lit ''a'')), Prim (PBool True), Prim PNull,
                    Prim PUndefined, Ref 1, Ref 2],
            OMap [(Prim (PStr (Lit ''k'')), Ref 3), (Ref 4, Prim PNull)],
            OSet [Prim (PNum 3), Ref 3],
            ODate (Some 1700000000000),
            ORegExp (Lit ''a+'') (Lit ''gi'')],
      classRegistry = Map.empty, globals = Map.empty, console = []\<rparr>"



subsection \<open>Encodings with one full node for each object\<close>


subsection \<open>Graphs of records\<close>

text \<open>
  Graphs of records. \<open>record_graph h v\<close>: every object at or below \<open>v\<close> is an array, a Map, a
  Set, a Date, a RegExp or a plain object (a record); the keys of a Map, the members of a
  Set and the keys of a record are distinct, as the host has them.
  \<open>corresponds h H \<phi> v v'\<close>: the value \<open>v\<close> of the heap \<open>h\<close> and the value \<open>v'\<close> of the heap \<open>H\<close> are
  the same primitive, or records that \<open>\<phi>\<close> maps to each other, or containers of the same
  kind whose members correspond in order. \<open>record_matches h H \<phi> a\<close>: the record at \<open>a\<close> and
  its image under \<open>\<phi>\<close> have the same keys in the same order, with corresponding values.
\<close>

fun is_plain :: "obj \<Rightarrow> bool" where
  "is_plain (OPlain ps) = True"
| "is_plain ob = False"



inductive corresponds :: "heap \<Rightarrow> heap \<Rightarrow> (addr \<rightharpoonup> addr) \<Rightarrow> jsval \<Rightarrow> jsval \<Rightarrow> bool"
  for h :: heap and H :: heap and \<phi> :: "addr \<rightharpoonup> addr" where
  corr_prim: "corresponds h H \<phi> (Prim p) (Prim p)"
| corr_record: "\<phi> a = Some b \<Longrightarrow> corresponds h H \<phi> (Ref a) (Ref b)"
| corr_array:
    "deref h a = Some (OArray xs) \<Longrightarrow> deref H b = Some (OArray ys) \<Longrightarrow>
     list_all2 (corresponds h H \<phi>) xs ys \<Longrightarrow> corresponds h H \<phi> (Ref a) (Ref b)"
| corr_map:
    "deref h a = Some (OMap kvs) \<Longrightarrow> deref H b = Some (OMap kvs') \<Longrightarrow>
     list_all2 (corresponds h H \<phi>) (map fst kvs) (map fst kvs') \<Longrightarrow>
     list_all2 (corresponds h H \<phi>) (map snd kvs) (map snd kvs') \<Longrightarrow>
     corresponds h H \<phi> (Ref a) (Ref b)"
| corr_set:
    "deref h a = Some (OSet xs) \<Longrightarrow> deref H b = Some (OSet ys) \<Longrightarrow>
     list_all2 (corresponds h H \<phi>) xs ys \<Longrightarrow> corresponds h H \<phi> (Ref a) (Ref b)"
| corr_date:
    "deref h a = Some (ODate t) \<Longrightarrow> deref H b = Some (ODate t) \<Longrightarrow>
     corresponds h H \<phi> (Ref a) (Ref b)"
| corr_regexp:
    "deref h a = Some (ORegExp src fl) \<Longrightarrow> deref H b = Some (ORegExp src fl) \<Longrightarrow>
     corresponds h H \<phi> (Ref a) (Ref b)"




definition heap_le :: "heap \<Rightarrow> heap \<Rightarrow> bool" where
  "heap_le H H' \<longleftrightarrow>
     (\<forall>b ob. deref H b = Some ob \<longrightarrow>
        (\<exists>ob'. deref H' b = Some ob' \<and> (if is_plain ob then is_plain ob' else ob' = ob)))"



text \<open>
  A world with a record \<open>o\<close> (address 1) that holds itself, a record \<open>p\<close> (address 2) that
  holds \<open>o\<close>, and the array \<^verbatim>\<open>[o, o, p]\<close> (address 0).
\<close>

definition records_world :: world where
  "records_world =
     \<lparr>hp = [OArray [Ref 1, Ref 1, Ref 2],
            OPlain [(''self'', Ref 1), (''n'', Prim (PNum 1))],
            OPlain [(''o'', Ref 1)]],
      classRegistry = Map.empty, globals = Map.empty, console = []\<rparr>"


text \<open>A world with a record \<open>o\<close> (address 1) and the array \<^verbatim>\<open>[o, o]\<close> (address 0).\<close>

definition twice_world :: world where
  "twice_world =
     \<lparr>hp = [OArray [Ref 1, Ref 1], OPlain [(''n'', Prim (PNum 1))]],
      classRegistry = Map.empty, globals = Map.empty, console = []\<rparr>"

section \<open>Properties\<close>

subsection \<open>Auxiliary facts\<close>

lemma resolve_args:
  "g ''args'' = None \<Longrightarrow> resolve (constructor_scope xs) g ''args'' = Inl (ReferenceError ''args'')"
  by (simp add: resolve_def constructor_scope_def host_globals_def)

lemma Serializable_constructor_unbound:
  "globals w ''args'' = None \<Longrightarrow>
   Serializable_constructor (Some Class) xs w =
     (Inl (ReferenceError ''args''),
      w\<lparr>hp := hp w @ [OInstance (cname Class) [(''_serializeInitArgs'', Ref (Suc (length (hp w))))],
                       OArray [], OArray xs]\<rparr>)"
  by (simp add: Serializable_constructor_def resolve_args Let_def)

lemma construct_result:
  "ctor Class = CallsSuper f g \<Longrightarrow> globals w ''args'' = None \<Longrightarrow>
   construct Class args w =
     (Inl (ReferenceError ''args''),
      w\<lparr>hp := hp w @ [OInstance (cname Class) [(''_serializeInitArgs'', Ref (Suc (length (hp w))))],
                       OArray [], OArray (f args)]\<rparr>)"
  by (simp add: construct_def Serializable_constructor_unbound)

text \<open>Entries of the registry are kept by every step: the only writer is \<open>register\<close>.\<close>

lemma register_le: "classRegistry w \<subseteq>\<^sub>m classRegistry (snd (register Class w))"
  by (auto simp: register_def Let_def map_le_def)

lemma Serializable_constructor_le:
  "classRegistry w \<subseteq>\<^sub>m classRegistry (snd (Serializable_constructor target xs w))"
proof (cases target)
  case None
  then show ?thesis by (simp add: Serializable_constructor_def Let_def)
next
  case (Some Class)
  then show ?thesis
    by (auto simp: Serializable_constructor_def Let_def register_def map_le_def
        split: sum.splits binding.splits)
qed

lemma construct_le: "classRegistry w \<subseteq>\<^sub>m classRegistry (snd (construct Class args w))"
proof (cases "ctor Class")
  case (CallsSuper f g)
  then show ?thesis
    using Serializable_constructor_le[of w "Some Class" "f args"]
    by (auto simp: construct_def split: prod.splits sum.splits)
next
  case (NoSuper f)
  then show ?thesis by (simp add: construct_def)
qed

lemma map_state_inv:
  assumes "\<And>x s. x \<in> set xs \<Longrightarrow> I s \<Longrightarrow> I (snd (f x s))" and "I s"
  shows "I (snd (map_state f xs s))"
  using assms
proof (induction xs arbitrary: s)
  case Nil
  then show ?case by simp
next
  case (Cons x xs)
  have a: "I (snd (f x s))" using Cons.prems by simp
  have b: "I (snd (map_state f xs (snd (f x s))))"
    by (rule Cons.IH) (use Cons.prems a in auto)
  show ?case using a b by (auto split: prod.splits sum.splits)
qed

lemma map_state_rel:
  assumes step: "\<And>x s y s'. x \<in> set xs \<Longrightarrow> f x s = (y, s') \<Longrightarrow> R s s'"
    and refl: "\<And>s. R s s"
    and trans: "\<And>a b c. R a b \<Longrightarrow> R b c \<Longrightarrow> R a c"
  shows "map_state f xs s = (ys, s') \<Longrightarrow> R s s'"
  using step
proof (induction xs arbitrary: s ys s')
  case Nil
  then show ?case by (simp add: refl)
next
  case (Cons x xs)
  obtain y s1 where a: "f x s = (y, s1)" by (cases "f x s")
  have r1: "R s s1" using Cons.prems(2)[OF _ a] by simp
  show ?case
  proof (cases y)
    case (Inl e)
    then show ?thesis using Cons.prems(1) a r1 by simp
  next
    case (Inr z)
    obtain ys1 s2 where b: "map_state f xs s1 = (ys1, s2)" by (cases "map_state f xs s1")
    have "R s1 s2"
    proof (rule Cons.IH[OF b])
      fix z t y t' assume "z \<in> set xs" "f z t = (y, t')"
      then show "R t t'" using Cons.prems(2)[of z t y t'] by simp
    qed
    moreover have "s' = s2" using Cons.prems(1) a b Inr by (auto split: sum.splits)
    ultimately show ?thesis using r1 trans by blast
  qed
qed

lemma deserialize_le:
  "classRegistry w \<subseteq>\<^sub>m classRegistry (snd (snd (deserializeInternal n t (r, w)))) \<and>
   classRegistry w \<subseteq>\<^sub>m classRegistry (snd (deserializeValue n t w)) \<and>
   classRegistry w \<subseteq>\<^sub>m classRegistry (snd (deserialize n t w))"
proof (induction n arbitrary: t r w)
  case 0
  then show ?case by simp
next
  case (Suc n)
  have IHi': "classRegistry w \<subseteq>\<^sub>m classRegistry w'"
    if "deserializeInternal n t (r, w) = (res, (r', w'))" for t r w res r' w'
    using Suc.IH[of w t r] that by simp
  have IHv': "classRegistry w \<subseteq>\<^sub>m classRegistry w'"
    if "deserializeValue n t w = (res, w')" for t w res w'
    using Suc.IH[of w t] that by simp
  have IHd': "classRegistry w \<subseteq>\<^sub>m classRegistry w'"
    if "deserialize n t w = (res, w')" for t w res w'
    using Suc.IH[of w t] that by simp
  have elems': "classRegistry w \<subseteq>\<^sub>m classRegistry w'"
    if "map_state (\<lambda>x s. deserializeInternal n x s) xs (r, w) = (res, (r', w'))" for xs r w res r' w'
  proof -
    have "(\<lambda>s s'. classRegistry (snd s) \<subseteq>\<^sub>m classRegistry (snd s')) (r, w) (r', w')"
      using that
      by (rule map_state_rel[where R = "\<lambda>s s'. classRegistry (snd s) \<subseteq>\<^sub>m classRegistry (snd s')", rotated 3])
         (auto intro: map_le_trans dest!: IHi')
    then show ?thesis by simp
  qed
  have pairs': "classRegistry w \<subseteq>\<^sub>m classRegistry w'"
    if "map_state (\<lambda>x s.
                           case pair_of x of
                             Inl e \<Rightarrow> (Inl e, s)
                           | Inr (k, v) \<Rightarrow>
                               (case deserializeInternal n k s of
                                  (Inl e, s1) \<Rightarrow> (Inl e, s1)
                                | (Inr dk, s1) \<Rightarrow>
                                    (case deserializeInternal n v s1 of
                                       (Inl e, s2) \<Rightarrow> (Inl e, s2)
                                     | (Inr dv, s2) \<Rightarrow> (Inr (dk, dv), s2)))) xs (r, w) = (res, (r', w'))" for xs r w res r' w'
  proof -
    have "(\<lambda>s s'. classRegistry (snd s) \<subseteq>\<^sub>m classRegistry (snd s')) (r, w) (r', w')"
      using that
      by (rule map_state_rel[where R = "\<lambda>s s'. classRegistry (snd s) \<subseteq>\<^sub>m classRegistry (snd s')", rotated 3])
         (auto intro: map_le_trans split: sum.splits prod.splits dest!: IHi')
    then show ?thesis by simp
  qed
  have fields': "classRegistry w \<subseteq>\<^sub>m classRegistry w'"
    if "map_state (\<lambda>(k, x) s.
                              case deserializeInternal n x s of
                                (Inl e, s1) \<Rightarrow> (Inl e, s1)
                              | (Inr v, (r2, w2)) \<Rightarrow>
                                  (Inr (), (r2, w2\<lparr>hp := set_prop (hp w2) a k v\<rparr>))) es (r, w) = (res, (r', w'))" for es r w res r' w' a
  proof -
    have "(\<lambda>s s'. classRegistry (snd s) \<subseteq>\<^sub>m classRegistry (snd s')) (r, w) (r', w')"
      using that
      by (rule map_state_rel[where R = "\<lambda>s s'. classRegistry (snd s) \<subseteq>\<^sub>m classRegistry (snd s')", rotated 3])
         (auto intro: map_le_trans split: sum.splits prod.splits dest!: IHi')
    then show ?thesis by simp
  qed
  have P1: "classRegistry w \<subseteq>\<^sub>m classRegistry (snd (snd (deserializeInternal (Suc n) t (r, w))))"
  proof (cases t)
    case (NPrim p)
    then show ?thesis by simp
  next
    case (NArr xs)
    then show ?thesis by (simp split: prod.splits)
  next
    case (NObj fs)
    show ?thesis
    proof (cases "map_of fs ''__type''")
      case None
      then show ?thesis unfolding NObj by (simp split: prod.splits)
    next
      case (Some ty)
      consider (ref) "ty = str ''ref''" | (ser) "ty = str ''Serializable''"
        | (arr) "ty = str ''Array''" | (map) "ty = str ''Map''" | (set) "ty = str ''Set''"
        | (date) "ty = str ''Date''" | (regexp) "ty = str ''RegExp''" | (err) "ty = str ''Error''"
        | (typed) "ty = str ''TypedArray''" | (big) "ty = str ''BigInt''"
        | (undef) "ty = str ''undefined''" | (obj) "ty = str ''Object''"
        | (other) "ty \<notin> str ` {''ref'', ''Serializable'', ''Array'', ''Map'', ''Set'', ''Date'',
              ''RegExp'', ''Error'', ''TypedArray'', ''BigInt'', ''undefined'', ''Object''}"
        by blast
      then show ?thesis
      proof cases
        case ref
        then show ?thesis unfolding NObj using Some by (simp add: str_def)
      next
        case ser
        then show ?thesis unfolding NObj using Some
          by (auto simp: str_def split: prod.splits sum.splits dest!: IHd')
      next
        case arr
        then show ?thesis unfolding NObj using Some
          by (auto simp: str_def Let_def split: prod.splits sum.splits dest!: elems')
      next
        case map
        then show ?thesis unfolding NObj using Some
          by (auto simp: str_def Let_def split: prod.splits sum.splits dest!: pairs')
      next
        case set
        then show ?thesis unfolding NObj using Some
          by (auto simp: str_def Let_def split: prod.splits sum.splits dest!: elems')
      next
        case date
        then show ?thesis unfolding NObj using Some
          by (simp add: str_def split: prod.splits sum.splits)
      next
        case regexp
        then show ?thesis unfolding NObj using Some
          by (simp add: str_def split: prod.splits sum.splits)
      next
        case err
        then show ?thesis unfolding NObj using Some
          by (simp add: str_def split: prod.splits sum.splits)
      next
        case typed
        then show ?thesis unfolding NObj using Some
          by (simp add: str_def split: prod.splits sum.splits)
      next
        case big
        then show ?thesis unfolding NObj using Some
          by (simp add: str_def split: prod.splits sum.splits)
      next
        case undef
        then show ?thesis unfolding NObj using Some by (simp add: str_def)
      next
        case obj
        then show ?thesis unfolding NObj
          using Some
          by (auto simp: str_def Let_def split: prod.splits sum.splits dest!: fields')
      next
        case other
        then show ?thesis unfolding NObj using Some by (simp add: str_def)
      qed
    qed
  qed
  have P2: "classRegistry w \<subseteq>\<^sub>m classRegistry (snd (deserializeValue (Suc n) t w))"
    by (auto split: prod.splits dest!: IHi')
  have vals': "classRegistry w \<subseteq>\<^sub>m classRegistry w'"
    if "map_state (\<lambda>x s. deserializeValue n x s) xs w = (res, w')" for xs w res w'
    using that
    by (rule map_state_rel[where R = "\<lambda>s s'. classRegistry s \<subseteq>\<^sub>m classRegistry s'", rotated 3])
       (auto intro: map_le_trans dest!: IHv')
  have props': "classRegistry w \<subseteq>\<^sub>m classRegistry w'"
    if "map_state (\<lambda>(k, x) s.
                      case deserializeValue n x s of
                        (Inl e, s1) \<Rightarrow> (Inl e, s1)
                      | (Inr v, s1) \<Rightarrow> (Inr (), s1\<lparr>hp := set_prop (hp s1) a k v\<rparr>)) es w = (res, w')"
    for es w res w' a
    using that
    by (rule map_state_rel[where R = "\<lambda>s s'. classRegistry s \<subseteq>\<^sub>m classRegistry s'", rotated 3])
       (auto intro: map_le_trans split: sum.splits prod.splits dest!: IHv')
  have construct_le': "classRegistry w \<subseteq>\<^sub>m classRegistry w'"
    if "construct Class args w = (res, w')" for Class args w res w'
    using construct_le[of w Class args] that by simp
  have P3: "classRegistry w \<subseteq>\<^sub>m classRegistry (snd (deserialize (Suc n) t w))"
  proof -
    obtain res w' where d: "deserialize (Suc n) t w = (res, w')" by (cases "deserialize (Suc n) t w")
    have "classRegistry w \<subseteq>\<^sub>m classRegistry w'"
      using d
      apply (auto simp: Let_def split: sum.splits option.splits prod.splits if_splits
          dest!: vals' props' construct_le')
         apply (meson map_le_trans)+
      done
    then show ?thesis using d by simp
  qed
  show ?case using P1 P2 P3 by simp
qed

lemma logs_only_refl: "logs_only w w"
  by (simp add: logs_only_def)

lemma logs_only_trans: "logs_only a b \<Longrightarrow> logs_only b c \<Longrightarrow> logs_only a c"
  by (auto simp: logs_only_def)

lemma logs_only_console: "logs_only w (w\<lparr>console := console w @ ls\<rparr>)"
  by (simp add: logs_only_def)

text \<open>Serialization writes to the console and to nothing else.\<close>

lemma serialize_io_logs_only:
  "logs_only w (snd (snd (recursiveSerialize_io n v (tr, w)))) \<and>
   logs_only w (snd (serializeValue_io n v w)) \<and>
   logs_only w (snd (serialize_io n a w))"
proof (induction n arbitrary: v tr w a)
  case 0
  then show ?case by (simp add: logs_only_refl)
next
  case (Suc n)
  have IHr: "logs_only w w'"
    if "recursiveSerialize_io n v (tr, w) = (res, (tr', w'))" for v tr w res tr' w'
    using Suc.IH[of w v tr] that by simp
  have IHv: "logs_only w w'" if "serializeValue_io n v w = (res, w')" for v w res w'
    using Suc.IH[of w v] that by simp
  have IHs: "logs_only w w'" if "serialize_io n a w = (res, w')" for a w res w'
    using Suc.IH[of w _ _ a] that by simp
  have elems: "logs_only w w'"
    if "map_state (\<lambda>x s. recursiveSerialize_io n x s) xs (tr, w) = (res, (tr', w'))"
    for xs tr w res tr' w'
  proof -
    have "(\<lambda>s s'. logs_only (snd s) (snd s')) (tr, w) (tr', w')"
      using that
      by (rule map_state_rel[where R = "\<lambda>s s'. logs_only (snd s) (snd s')", rotated 3])
         (auto intro: logs_only_refl logs_only_trans dest!: IHr)
    then show ?thesis by simp
  qed
  have pairs: "logs_only w w'"
    if "map_state (\<lambda>(k, v) s.
                   case recursiveSerialize_io n k s of
                     (Inl e, s1) \<Rightarrow> (Inl e, s1)
                   | (Inr nk, s1) \<Rightarrow>
                       (case recursiveSerialize_io n v s1 of
                          (Inl e, s2) \<Rightarrow> (Inl e, s2)
                        | (Inr nv, s2) \<Rightarrow> (Inr (NArr [nk, nv]), s2))) kvs (tr, w) = (res, (tr', w'))"
    for kvs tr w res tr' w'
  proof -
    have "(\<lambda>s s'. logs_only (snd s) (snd s')) (tr, w) (tr', w')"
      using that
      by (rule map_state_rel[where R = "\<lambda>s s'. logs_only (snd s) (snd s')", rotated 3])
         (auto intro: logs_only_refl logs_only_trans split: sum.splits prod.splits dest!: IHr)
    then show ?thesis by simp
  qed
  have fields: "logs_only w w'"
    if "map_state (\<lambda>(k, v) s.
                          case recursiveSerialize_io n v s of
                            (Inl e, s1) \<Rightarrow> (Inl e, s1)
                          | (Inr nv, s1) \<Rightarrow> (Inr (k, nv), s1)) ps (tr, w) = (res, (tr', w'))"
    for ps :: "(string \<times> jsval) list" and tr w res tr' w'
  proof -
    have "(\<lambda>s s'. logs_only (snd s) (snd s')) (tr, w) (tr', w')"
      using that
      by (rule map_state_rel[where R = "\<lambda>s s'. logs_only (snd s) (snd s')", rotated 3])
         (auto intro: logs_only_refl logs_only_trans split: sum.splits prod.splits dest!: IHr)
    then show ?thesis by simp
  qed
  have P1: "logs_only w (snd (snd (recursiveSerialize_io (Suc n) v (tr, w))))"
  proof (cases v)
    case (Prim p)
    then show ?thesis by (simp add: logs_only_refl split: prim.splits)
  next
    case (Ref a)
    obtain res tr' w' where d: "recursiveSerialize_io (Suc n) (Ref a) (tr, w) = (res, (tr', w'))"
      by (cases "recursiveSerialize_io (Suc n) (Ref a) (tr, w)") auto
    have "logs_only w w'"
    proof (cases "deref (hp w) a")
      case None
      with d show ?thesis by (auto simp: logs_only_refl)
    next
      case (Some ob)
      with d show ?thesis
        by (cases ob)
           (auto simp: logs_only_refl logs_only_console Let_def
                 split: option.splits sum.splits prod.splits
                 dest!: elems pairs fields IHs)
    qed
    then show ?thesis using d Ref by simp
  qed
  have P2: "logs_only w (snd (serializeValue_io (Suc n) v w))"
    by (auto split: prod.splits dest!: IHr)
  have props: "logs_only w w'"
    if "map_state (\<lambda>(k, v) s.
                   case serializeValue_io n v s of
                     (Inl e, s1) \<Rightarrow> (Inl e, s1)
                   | (Inr t, s1) \<Rightarrow> (Inr (k, t), s1)) ps w = (res, w')"
    for ps :: "(string \<times> jsval) list" and w res w'
    using that
    by (rule map_state_rel[where R = logs_only, rotated 3])
       (auto intro: logs_only_refl logs_only_trans split: sum.splits prod.splits dest!: IHv)
  have args: "logs_only w w'"
    if "map_state (\<lambda>x s. serializeValue_io n x s) xs w = (res, w')" for xs w res w'
    using that
    by (rule map_state_rel[where R = logs_only, rotated 3])
       (auto intro: logs_only_refl logs_only_trans dest!: IHv)
  have P3: "logs_only w (snd (serialize_io (Suc n) a w))"
  proof -
    obtain res w' where d: "serialize_io (Suc n) a w = (res, w')"
      by (cases "serialize_io (Suc n) a w")
    have "logs_only w w'"
      using d
      by (auto simp: logs_only_refl split: option.splits obj.splits jsval.splits sum.splits prod.splits
          dest!: props args intro: logs_only_trans)
    then show ?thesis using d by simp
  qed
  show ?case using P1 P2 P3 by simp
qed

lemma map_state_agrees:
  assumes "\<And>x tr w. x \<in> set xs \<Longrightarrow> hp w = h \<Longrightarrow>
             agrees (f x (tr, w)) (g x tr) \<and> hp (snd (snd (f x (tr, w)))) = h"
  shows "hp w = h \<Longrightarrow>
         agrees (map_state f xs (tr, w)) (map_st g xs tr) \<and>
         hp (snd (snd (map_state f xs (tr, w)))) = h"
  using assms
proof (induction xs arbitrary: tr w)
  case Nil
  then show ?case by (simp add: agrees_def)
next
  case (Cons x xs)
  obtain res1 tr1 w1 where a: "f x (tr, w) = (res1, (tr1, w1))"
    by (cases "f x (tr, w)") auto
  have a1: "agrees (res1, (tr1, w1)) (g x tr)" and a2: "hp w1 = h"
    using Cons.prems(2)[of x w tr] Cons.prems(1) a by simp_all
  show ?case
  proof (cases "g x tr")
    case (Inl e)
    then show ?thesis using a a1 a2 by (simp add: agrees_def)
  next
    case (Inr yt)
    obtain y t where yt: "yt = (y, t)" by (cases yt)
    have r: "res1 = Inr y" "tr1 = t" using a1 Inr yt by (simp_all add: agrees_def)
    have b: "agrees (map_state f xs (t, w1)) (map_st g xs t) \<and>
             hp (snd (snd (map_state f xs (t, w1)))) = h"
      by (rule Cons.IH[OF a2]) (use Cons.prems(2) in auto)
    obtain res2 tr2 w2 where c: "map_state f xs (t, w1) = (res2, (tr2, w2))"
      by (cases "map_state f xs (t, w1)") auto
    show ?thesis using a r b c Inr yt
      by (auto simp: agrees_def split: sum.splits prod.splits)
  qed
qed

lemma map_state_map_err:
  assumes "\<And>x w. x \<in> set xs \<Longrightarrow> hp w = h \<Longrightarrow> fst (f x w) = g x \<and> hp (snd (f x w)) = h"
  shows "hp w = h \<Longrightarrow> fst (map_state f xs w) = map_err g xs \<and> hp (snd (map_state f xs w)) = h"
  using assms
proof (induction xs arbitrary: w)
  case Nil
  then show ?case by simp
next
  case (Cons x xs)
  obtain res1 w1 where a: "f x w = (res1, w1)" by (cases "f x w")
  have a1: "res1 = g x" and a2: "hp w1 = h"
    using Cons.prems(2)[of x w] Cons.prems(1) a by simp_all
  have b: "fst (map_state f xs w1) = map_err g xs \<and> hp (snd (map_state f xs w1)) = h"
    by (rule Cons.IH[OF a2]) (use Cons.prems(2) in auto)
  obtain res2 w2 where c: "map_state f xs w1 = (res2, w2)" by (cases "map_state f xs w1")
  show ?case using a a1 a2 b c by (auto split: sum.splits)
qed

text \<open>
  The steps return what \<open>recursiveSerialize\<close>, \<open>serializeValue\<close> and \<open>serialize\<close> return on the
  heap of the world.
\<close>

lemma serialize_io_result:
  "agrees (recursiveSerialize_io n v (tr, w)) (recursiveSerialize n (hp w) v tr) \<and>
   fst (serializeValue_io n v w) = serializeValue n (hp w) v \<and>
   fst (serialize_io n a w) = serialize n (hp w) a"
proof (induction n arbitrary: v tr w a)
  case 0
  then show ?case by (simp add: agrees_def)
next
  case (Suc n)
  have IHr: "agrees (recursiveSerialize_io n v (tr, w)) (recursiveSerialize n (hp w) v tr)" for v tr w
    using Suc.IH[of v tr w] by simp
  have IHv: "fst (serializeValue_io n v w) = serializeValue n (hp w) v" for v w
    using Suc.IH[of v _ w] by simp
  have IHs: "fst (serialize_io n a w) = serialize n (hp w) a" for a w
    using Suc.IH[of _ _ w a] by simp
  have hp_r: "hp (snd (snd (recursiveSerialize_io n v (tr, w)))) = hp w" for v tr w
    using serialize_io_logs_only[of w n v tr] by (simp add: logs_only_def)
  have hp_v: "hp (snd (serializeValue_io n v w)) = hp w" for v w
    using serialize_io_logs_only[of w n v] by (simp add: logs_only_def)
  have elems: "agrees (map_state (\<lambda>x s. recursiveSerialize_io n x s) xs (tr, w))
                      (map_st (\<lambda>x t. recursiveSerialize n (hp w) x t) xs tr)" for xs tr w
  proof -
    have "agrees (map_state (\<lambda>x s. recursiveSerialize_io n x s) xs (tr, w))
                 (map_st (\<lambda>x t. recursiveSerialize n (hp w) x t) xs tr) \<and>
          hp (snd (snd (map_state (\<lambda>x s. recursiveSerialize_io n x s) xs (tr, w)))) = hp w"
    proof (rule map_state_agrees)
      fix x tr' and w' :: world assume "x \<in> set xs" "hp w' = hp w"
      then show "agrees (recursiveSerialize_io n x (tr', w')) (recursiveSerialize n (hp w) x tr') \<and>
                 hp (snd (snd (recursiveSerialize_io n x (tr', w')))) = hp w"
        using IHr[of x tr' w'] hp_r[of x tr' w'] by simp
    qed simp
    then show ?thesis by simp
  qed
  have pairs: "agrees (map_state (\<lambda>(k, v) s.
                   case recursiveSerialize_io n k s of
                     (Inl e, s1) \<Rightarrow> (Inl e, s1)
                   | (Inr nk, s1) \<Rightarrow>
                       (case recursiveSerialize_io n v s1 of
                          (Inl e, s2) \<Rightarrow> (Inl e, s2)
                        | (Inr nv, s2) \<Rightarrow> (Inr (NArr [nk, nv]), s2))) kvs (tr, w))
                      (map_st (\<lambda>(k, v) t.
                   case recursiveSerialize n (hp w) k t of
                     Inl e \<Rightarrow> Inl e
                   | Inr (nk, t1) \<Rightarrow>
                       (case recursiveSerialize n (hp w) v t1 of
                          Inl e \<Rightarrow> Inl e
                        | Inr (nv, t2) \<Rightarrow> Inr (NArr [nk, nv], t2))) kvs tr)" for kvs tr w
  proof -
    let ?f = "\<lambda>(k, v) s.
                   case recursiveSerialize_io n k s of
                     (Inl e, s1) \<Rightarrow> (Inl e, s1)
                   | (Inr nk, s1) \<Rightarrow>
                       (case recursiveSerialize_io n v s1 of
                          (Inl e, s2) \<Rightarrow> (Inl e, s2)
                        | (Inr nv, s2) \<Rightarrow> (Inr (NArr [nk, nv]), s2))"
    let ?g = "\<lambda>(k, v) t.
                   case recursiveSerialize n (hp w) k t of
                     Inl e \<Rightarrow> Inl e
                   | Inr (nk, t1) \<Rightarrow>
                       (case recursiveSerialize n (hp w) v t1 of
                          Inl e \<Rightarrow> Inl e
                        | Inr (nv, t2) \<Rightarrow> Inr (NArr [nk, nv], t2))"
    have "agrees (map_state ?f kvs (tr, w)) (map_st ?g kvs tr) \<and>
          hp (snd (snd (map_state ?f kvs (tr, w)))) = hp w"
    proof (rule map_state_agrees)
      fix x tr' and w' :: world assume x: "x \<in> set kvs" "hp w' = hp w"
      obtain k v where kv: "x = (k, v)" by (cases x)
      obtain r1 t1 w1 where a: "recursiveSerialize_io n k (tr', w') = (r1, (t1, w1))"
        by (cases "recursiveSerialize_io n k (tr', w')") auto
      have a1: "agrees (r1, (t1, w1)) (recursiveSerialize n (hp w) k tr')" and a2: "hp w1 = hp w"
        using IHr[of k tr' w'] hp_r[of k tr' w'] a x by simp_all
      obtain r2 t2 w2 where b: "recursiveSerialize_io n v (t1, w1) = (r2, (t2, w2))"
        by (cases "recursiveSerialize_io n v (t1, w1)") auto
      have b1: "agrees (r2, (t2, w2)) (recursiveSerialize n (hp w) v t1)" and b2: "hp w2 = hp w"
        using IHr[of v t1 w1] hp_r[of v t1 w1] b a2 by simp_all
      show "agrees (?f x (tr', w')) (?g x tr') \<and> hp (snd (snd (?f x (tr', w')))) = hp w"
        using kv a a1 a2 b b1 b2
        by (auto simp: agrees_def split: sum.splits prod.splits)
    qed simp
    then show ?thesis by simp
  qed
  have fields: "agrees (map_state (\<lambda>(k, v) s.
                          case recursiveSerialize_io n v s of
                            (Inl e, s1) \<Rightarrow> (Inl e, s1)
                          | (Inr nv, s1) \<Rightarrow> (Inr (k, nv), s1)) ps (tr, w))
                       (map_st (\<lambda>(k, v) t.
                          case recursiveSerialize n (hp w) v t of
                            Inl e \<Rightarrow> Inl e
                          | Inr (nv, t1) \<Rightarrow> Inr ((k, nv), t1)) ps tr)"
    for ps :: "(string \<times> jsval) list" and tr w
  proof -
    let ?f = "\<lambda>(k :: string, v) s.
                          case recursiveSerialize_io n v s of
                            (Inl e, s1) \<Rightarrow> (Inl e, s1)
                          | (Inr nv, s1) \<Rightarrow> (Inr (k, nv), s1)"
    let ?g = "\<lambda>(k :: string, v) t.
                          case recursiveSerialize n (hp w) v t of
                            Inl e \<Rightarrow> Inl e
                          | Inr (nv, t1) \<Rightarrow> Inr ((k, nv), t1)"
    have "agrees (map_state ?f ps (tr, w)) (map_st ?g ps tr) \<and>
          hp (snd (snd (map_state ?f ps (tr, w)))) = hp w"
    proof (rule map_state_agrees)
      fix x tr' and w' :: world assume x: "x \<in> set ps" "hp w' = hp w"
      obtain k v where kv: "x = (k, v)" by (cases x)
      obtain r1 t1 w1 where a: "recursiveSerialize_io n v (tr', w') = (r1, (t1, w1))"
        by (cases "recursiveSerialize_io n v (tr', w')") auto
      have a1: "agrees (r1, (t1, w1)) (recursiveSerialize n (hp w) v tr')" and a2: "hp w1 = hp w"
        using IHr[of v tr' w'] hp_r[of v tr' w'] a x by simp_all
      show "agrees (?f x (tr', w')) (?g x tr') \<and> hp (snd (snd (?f x (tr', w')))) = hp w"
        using kv a a1 a2
        by (auto simp: agrees_def split: sum.splits prod.splits)
    qed simp
    then show ?thesis by simp
  qed
  have P1: "agrees (recursiveSerialize_io (Suc n) v (tr, w)) (recursiveSerialize (Suc n) (hp w) v tr)"
  proof (cases v)
    case (Prim p)
    then show ?thesis by (simp add: agrees_def split: prim.splits)
  next
    case (Ref a)
    show ?thesis
    proof (cases "deref (hp w) a")
      case None
      then show ?thesis using Ref by (simp add: agrees_def)
    next
      case (Some ob)
      show ?thesis
      proof (cases ob)
        case (OInstance c ps)
        then show ?thesis using Ref Some IHs[of a w]
          by (auto simp: agrees_def Let_def split: option.splits sum.splits prod.splits)
      next
        case (OArray xs)
        then show ?thesis using Ref Some elems[of xs tr w]
          by (auto simp: agrees_def split: sum.splits prod.splits)
      next
        case (OMap kvs)
        then show ?thesis using Ref Some pairs[of kvs tr w]
          by (auto simp: agrees_def split: sum.splits prod.splits)
      next
        case (OSet xs)
        then show ?thesis using Ref Some elems[of xs tr w]
          by (auto simp: agrees_def split: sum.splits prod.splits)
      next
        case (OPlain ps)
        then show ?thesis using Ref Some
            fields[of ps "tr\<lparr>seen := (seen tr)(a \<mapsto> current tr), current := Suc (current tr)\<rparr>" w]
          by (auto simp: agrees_def Let_def split: option.splits sum.splits prod.splits)
      qed (use Ref Some in \<open>auto simp: agrees_def split: option.splits\<close>)
    qed
  qed
  have P2: "fst (serializeValue_io (Suc n) v w) = serializeValue (Suc n) (hp w) v"
    using IHr[of v fresh_tracker w]
    by (auto simp: agrees_def split: sum.splits prod.splits)
  have props: "fst (map_state (\<lambda>(k, v) s.
                   case serializeValue_io n v s of
                     (Inl e, s1) \<Rightarrow> (Inl e, s1)
                   | (Inr t, s1) \<Rightarrow> (Inr (k, t), s1)) ps w)
               = map_err (\<lambda>(k, v).
                   case serializeValue n (hp w) v of
                     Inl e \<Rightarrow> Inl e
                   | Inr t \<Rightarrow> Inr (k, t)) ps \<and>
               hp (snd (map_state (\<lambda>(k, v) s.
                   case serializeValue_io n v s of
                     (Inl e, s1) \<Rightarrow> (Inl e, s1)
                   | (Inr t, s1) \<Rightarrow> (Inr (k, t), s1)) ps w)) = hp w"
    for ps :: "(string \<times> jsval) list" and w
  proof (rule map_state_map_err)
    fix x and w' :: world assume x: "x \<in> set ps" "hp w' = hp w"
    obtain k v where kv: "x = (k, v)" by (cases x)
    show "fst ((case x of (k, v) \<Rightarrow> \<lambda>s.
                   case serializeValue_io n v s of
                     (Inl e, s1) \<Rightarrow> (Inl e, s1)
                   | (Inr t, s1) \<Rightarrow> (Inr (k, t), s1)) w')
          = (case x of (k, v) \<Rightarrow>
                   case serializeValue n (hp w) v of
                     Inl e \<Rightarrow> Inl e
                   | Inr t \<Rightarrow> Inr (k, t)) \<and>
          hp (snd ((case x of (k, v) \<Rightarrow> \<lambda>s.
                   case serializeValue_io n v s of
                     (Inl e, s1) \<Rightarrow> (Inl e, s1)
                   | (Inr t, s1) \<Rightarrow> (Inr (k, t), s1)) w')) = hp w"
      using kv x IHv[of v w'] hp_v[of v w']
      by (cases "serializeValue_io n v w'") (auto split: sum.splits)
  qed simp
  have args: "fst (map_state (\<lambda>x s. serializeValue_io n x s) xs w')
              = map_err (\<lambda>x. serializeValue n (hp w) x) xs"
    if "hp w' = hp w" for xs w w'
  proof -
    have "fst (map_state (\<lambda>x s. serializeValue_io n x s) xs w')
              = map_err (\<lambda>x. serializeValue n (hp w) x) xs \<and>
          hp (snd (map_state (\<lambda>x s. serializeValue_io n x s) xs w')) = hp w"
    proof (rule map_state_map_err)
      fix x and w'' :: world assume "x \<in> set xs" "hp w'' = hp w"
      then show "fst (serializeValue_io n x w'') = serializeValue n (hp w) x \<and>
                 hp (snd (serializeValue_io n x w'')) = hp w"
        using IHv[of x w''] hp_v[of x w''] by simp
    qed (rule that)
    then show ?thesis by simp
  qed
  have P3: "fst (serialize_io (Suc n) a w) = serialize (Suc n) (hp w) a"
  proof (cases "deref (hp w) a")
    case None
    then show ?thesis by simp
  next
    case (Some ob)
    show ?thesis
    proof (cases ob)
      case (OInstance c ps)
      obtain res1 w1 where m: "map_state (\<lambda>(k, v) s.
                   case serializeValue_io n v s of
                     (Inl e, s1) \<Rightarrow> (Inl e, s1)
                   | (Inr t, s1) \<Rightarrow> (Inr (k, t), s1)) ps w = (res1, w1)"
        by (cases "map_state (\<lambda>(k, v) s.
                   case serializeValue_io n v s of
                     (Inl e, s1) \<Rightarrow> (Inl e, s1)
                   | (Inr t, s1) \<Rightarrow> (Inr (k, t), s1)) ps w")
      have m1: "res1 = map_err (\<lambda>(k, v).
                   case serializeValue n (hp w) v of
                     Inl e \<Rightarrow> Inl e
                   | Inr t \<Rightarrow> Inr (k, t)) ps" and m2: "hp w1 = hp w"
        using props[of ps w] m by simp_all
      have args': "res = map_err (\<lambda>x. serializeValue n (hp w) x) xs"
        if "map_state (\<lambda>x s. serializeValue_io n x s) xs w1 = (res, w2)" for xs res w2
        using args[OF m2, of xs] that by simp
      show ?thesis
        using Some OInstance m m1[symmetric] m2
        by (auto split: sum.splits option.splits jsval.splits obj.splits prod.splits dest!: args')
    qed (use Some in simp_all)
  qed
  show ?case using P1 P2 P3 by simp
qed

lemma deref_cyclic:
  "deref cyclic_heap 0 = Some (OInstance ''A'' [(''_serializeInitArgs'', Ref 1), (''prop'', Ref 2)])"
  "deref cyclic_heap 2 = Some (OInstance ''B'' [(''_serializeInitArgs'', Ref 3), (''prop'', Ref 0)])"
  "deref cyclic_heap (Suc 0) = Some (OArray [])"
  "deref cyclic_heap 3 = Some (OArray [])"
  by (simp_all add: deref_def cyclic_heap_def)

lemma cyclic_both:
  "serialize n cyclic_heap 0 = Inl StackOverflow \<and> serialize n cyclic_heap 2 = Inl StackOverflow"
proof (induction n rule: less_induct)
  case (less n)
  show ?case
  proof (cases n)
    case 0
    then show ?thesis by simp
  next
    case (Suc m)
    have nested: "serializeValue m cyclic_heap (Ref a) = Inl StackOverflow" if "a = 0 \<or> a = 2" for a
    proof (cases m)
      case 0
      then show ?thesis by simp
    next
      case m: (Suc m')
      show ?thesis
      proof (cases m')
        case 0
        then show ?thesis using m by simp
      next
        case (Suc k)
        have "k < n" using Suc m \<open>n = Suc m\<close> by simp
        from less.IH[OF this] that show ?thesis
          using m Suc by (auto simp: deref_cyclic fresh_tracker_def)
      qed
    qed
    have arr: "e = StackOverflow"
      if "serializeValue m cyclic_heap (Ref a) = Inl e" "a = Suc 0 \<or> a = 3" for a e
    proof (cases m)
      case 0
      then show ?thesis using that by simp
    next
      case m: (Suc m')
      show ?thesis using that m by (cases m') (auto simp: deref_cyclic)
    qed
    show ?thesis
      using Suc nested[of 0] nested[of 2]
      by (auto simp: deref_cyclic split: sum.splits dest: arr)
  qed
qed

subsection \<open>Construction\<close>




text \<open>
  Claim C5. The claim wants \<^verbatim>\<open>new Point(1)\<close> to validate its argument, succeed and register
  \<^verbatim>\<open>Point\<close>. \<^verbatim>\<open>_validateArgs\<close> accepts the argument list without a warning, but the constructor
  never reaches it: the construction throws and \<^verbatim>\<open>Point\<close> is not registered.
\<close>

theorem new_Point_throws:
  "validateArgs [] ''Point'' [Prim (PNum 1)] = Inr [] \<and>
   fst (exec n (New Point_class [Prim (PNum 1)]) empty_world) = Inl (ReferenceError ''args'') \<and>
   classRegistry (snd (exec n (New Point_class [Prim (PNum 1)]) empty_world)) ''Point'' = None"
proof -
  have "construct Point_class [Prim (PNum 1)] empty_world =
          (Inl (ReferenceError ''args''),
           empty_world\<lparr>hp := hp empty_world @
              [OInstance (cname Point_class) [(''_serializeInitArgs'', Ref (Suc (length (hp empty_world))))],
               OArray [], OArray [Prim (PNum 1)]]\<rparr>)"
    by (rule construct_result[of Point_class "\<lambda>args. args" "\<lambda>args. []"])
       (simp_all add: Point_class_def empty_world_def)
  then show ?thesis by (simp add: exec_def empty_world_def)
qed

subsection \<open>Round trip\<close>

text \<open>
  Claim C1. The claim wants \<^verbatim>\<open>deserialize(x.serialize())\<close> to rebuild \<open>x\<close>. For the instance of
  the registered class \<^verbatim>\<open>Point\<close>, \<^verbatim>\<open>serialize\<close> returns its text, and \<^verbatim>\<open>deserialize\<close> of that text
  throws the constructor's \<^verbatim>\<open>ReferenceError\<close> whatever the stack budget.
\<close>

theorem roundtrip_throws_ReferenceError:
  "serialize (Suc (Suc (Suc (Suc 0)))) (hp Point_world) 0 = Inr Point_text \<and>
   fst (deserialize (Suc n) (NPrim (PStr Point_text)) Point_world) = Inl (ReferenceError ''args'')"
proof (intro conjI)
  show "serialize (Suc (Suc (Suc (Suc 0)))) (hp Point_world) 0 = Inr Point_text"
    by (simp add: Point_world_def Point_text_def deref_def fresh_tracker_def JSON_stringify_def
        str_def)
  have "construct Point_class [] Point_world =
          (Inl (ReferenceError ''args''),
           Point_world\<lparr>hp := hp Point_world @
              [OInstance (cname Point_class) [(''_serializeInitArgs'', Ref (Suc (length (hp Point_world))))],
               OArray [], OArray []]\<rparr>)"
    by (rule construct_result[of Point_class "\<lambda>args. args" "\<lambda>args. []"])
       (simp_all add: Point_class_def Point_world_def)
  then show "fst (deserialize (Suc n) (NPrim (PStr Point_text)) Point_world) =
        Inl (ReferenceError ''args'')"
    by (simp add: Point_world_def Point_text_def JSON_parse_value_def JSON_parse_def node_member_def
        get_field_def str_def as_array_def)
qed

text \<open>
  Claim C3. The claim wants \<^verbatim>\<open>a.serialize()\<close> to terminate on the cycle \<^verbatim>\<open>a.prop = b\<close>,
  \<^verbatim>\<open>b.prop = a\<close>. Every nested instance is serialized by its own \<^verbatim>\<open>serialize\<close> call with new
  trackers, so the recursion never meets a seen object: whatever the stack budget, the call
  overflows the stack.
\<close>

theorem cyclic_serialize_overflows:
  "serialize n cyclic_heap 0 = Inl StackOverflow"
  using cyclic_both[of n] by simp

subsection \<open>Dangling references\<close>

text \<open>
  Claim C6, as amended. A \<^verbatim>\<open>ref\<close> node whose id has no entry in the \<^verbatim>\<open>references\<close> map of the
  running \<^verbatim>\<open>_deserializeValue\<close> call decodes to \<^verbatim>\<open>undefined\<close>; no error is raised and the
  map and the world are as before.
\<close>

theorem dangling_ref_is_undefined:
  assumes "map_of fs ''__type'' = Some (str ''ref'')"
    and "get_field fs ''id'' = NPrim p"
    and "r p = None"
  shows "deserializeInternal (Suc n) (NObj fs) (r, w) = (Inr (Prim PUndefined), (r, w))"
  using assms by (simp add: refs_get_def)

theorem dangling_ref_is_undefined_witness:
  "deserializeInternal (Suc 0) ref99 (Map.empty, empty_world) =
     (Inr (Prim PUndefined), (Map.empty, empty_world))"
  using dangling_ref_is_undefined[of "[(''__type'', str ''ref''), (''id'', NPrim (PNum 99))]"
      "PNum 99" Map.empty 0 empty_world]
  by (simp add: ref99_def get_field_def)

text \<open>
  The claim as stated fails: \<^verbatim>\<open>_deserializeValue\<close> of \<^verbatim>\<open>{"__type":"ref","id":99}\<close> returns
  \<^verbatim>\<open>undefined\<close>.
\<close>

theorem dangling_ref_returns:
  "deserializeValue (Suc (Suc 0)) ref99 empty_world = (Inr (Prim PUndefined), empty_world)"
  by (simp add: ref99_def refs_get_def get_field_def)

subsection \<open>The registry\<close>

text \<open>
  Claim C8. \<^verbatim>\<open>register\<close> fails when the class has no name and changes nothing; otherwise it
  succeeds, records the class when its name is absent, and changes nothing when the name is
  present. No operation of the component removes or overwrites an entry.
\<close>

theorem registry_first_wins_append_only:
  "(cname Class = [] \<longrightarrow> register Class w = (Inl RegisterNoName, w)) \<and>
   (cname Class \<noteq> [] \<longrightarrow> fst (register Class w) = Inr ()) \<and>
   (cname Class \<noteq> [] \<and> classRegistry w (cname Class) = None \<longrightarrow>
      classRegistry (snd (register Class w)) = (classRegistry w)(cname Class \<mapsto> Class)) \<and>
   (classRegistry w (cname Class) \<noteq> None \<longrightarrow> snd (register Class w) = w) \<and>
   (\<forall>k C0. classRegistry w k = Some C0 \<longrightarrow> classRegistry (snd (exec n c w)) k = Some C0)"
proof -
  have "classRegistry w \<subseteq>\<^sub>m classRegistry (snd (exec n c w))"
  proof (cases c)
    case (Register C1)
    then show ?thesis using register_le[of w C1]
      by (auto simp: exec_def split: prod.splits sum.splits)
  next
    case (New C1 args)
    then show ?thesis using construct_le[of w C1 args]
      by (auto simp: exec_def split: prod.splits sum.splits)
  next
    case (NewBase args)
    then show ?thesis using Serializable_constructor_le[of w None args]
      by (auto simp: exec_def split: prod.splits sum.splits)
  next
    case (Serialize a)
    then show ?thesis using serialize_io_logs_only[of w n _ _ a]
      by (auto simp: exec_def logs_only_def split: prod.splits sum.splits)
  next
    case (Deserialize json)
    then show ?thesis using deserialize_le[of w n json]
      by (auto simp: exec_def split: sum.splits prod.splits)
  qed
  then have "classRegistry (snd (exec n c w)) k = Some C0" if "classRegistry w k = Some C0" for k C0
    using that by (auto simp: map_le_def dom_def)
  then show ?thesis by (auto simp: register_def Let_def)
qed

theorem registry_first_wins_append_only_witness:
  "register \<lparr>cname = [], ctor = CallsSuper (\<lambda>args. args) (\<lambda>args. [])\<rparr> empty_world =
     (Inl RegisterNoName, empty_world) \<and>
   fst (register Point_class empty_world) = Inr () \<and>
   classRegistry (snd (register Point_class empty_world)) = [''Point'' \<mapsto> Point_class] \<and>
   snd (register \<lparr>cname = ''Point'', ctor = CallsSuper (\<lambda>args. args) (\<lambda>args. [(''x'', Prim PNull)])\<rparr>
          Point_world) = Point_world \<and>
   classRegistry (snd (exec (Suc (Suc 0)) (Deserialize (NPrim (PStr Point_text))) Point_world)) ''Point''
     = Some Point_class"
  using registry_first_wins_append_only[of "\<lparr>cname = [], ctor = CallsSuper (\<lambda>args. args) (\<lambda>args. [])\<rparr>"
      empty_world 0 "Serialize 0"]
    registry_first_wins_append_only[of Point_class empty_world 0 "Serialize 0"]
    registry_first_wins_append_only[of
      "\<lparr>cname = ''Point'', ctor = CallsSuper (\<lambda>args. args) (\<lambda>args. [(''x'', Prim PNull)])\<rparr>"
      Point_world "Suc (Suc 0)" "Deserialize (NPrim (PStr Point_text))"]
  by (simp add: Point_class_def Point_world_def empty_world_def)

subsection \<open>Serialization reads only\<close>



lemma map_err_Inr_all:
  "map_err f xs = Inr ys \<Longrightarrow> x \<in> set xs \<Longrightarrow> \<exists>y. f x = Inr y"
  by (induction xs arbitrary: ys) (auto split: sum.splits)

subsection \<open>Unsupported kinds\<close>

lemma covered_mono:
  "covered h tr v \<Longrightarrow> dom (seen tr) \<subseteq> dom (seen tr') \<Longrightarrow> covered h tr' v"
proof (induction rule: covered.induct)
  case (cov_prim p)
  show ?case by (rule covered.cov_prim)
next
  case (cov_seen a)
  then have "seen tr' a \<noteq> None" by (meson domIff subsetD)
  with cov_seen show ?case by (auto intro: covered.cov_seen)
next
  case (cov_untracked a ob)
  then show ?case by (auto intro: covered.cov_untracked)
qed

lemma closed_at_mono:
  "closed_at h tr a \<Longrightarrow> dom (seen tr) \<subseteq> dom (seen tr') \<Longrightarrow> closed_at h tr' a"
  by (auto simp: closed_at_def split: option.splits obj.splits intro: covered_mono)

lemma seals_refl: "seals h tr tr"
  by (simp add: seals_def)

lemma seals_trans: "seals h a b \<Longrightarrow> seals h b c \<Longrightarrow> seals h a c"
  unfolding seals_def
  by (meson closed_at_mono subset_iff subset_trans)

lemma map_st_post:
  assumes step: "\<And>x s y s'. x \<in> set xs \<Longrightarrow> f x s = Inr (y, s') \<Longrightarrow> R s s' \<and> Q s' x"
    and refl: "\<And>s. R s s"
    and trans: "\<And>a b c. R a b \<Longrightarrow> R b c \<Longrightarrow> R a c"
    and mono: "\<And>s s' x. R s s' \<Longrightarrow> Q s x \<Longrightarrow> Q s' x"
  shows "map_st f xs s = Inr (ys, s') \<Longrightarrow> R s s' \<and> (\<forall>x\<in>set xs. Q s' x)"
  using step
proof (induction xs arbitrary: s ys s')
  case Nil
  then show ?case by (simp add: refl)
next
  case (Cons x xs)
  from Cons.prems(1) obtain y s1 ys1 where
    a: "f x s = Inr (y, s1)" and b: "map_st f xs s1 = Inr (ys1, s')"
    by (auto split: sum.splits prod.splits)
  have first: "R s s1 \<and> Q s1 x" using Cons.prems(2)[OF _ a] by simp
  have rest: "R s1 s' \<and> (\<forall>z\<in>set xs. Q s' z)"
  proof (rule Cons.IH[OF b])
    fix z t y t' assume "z \<in> set xs" "f z t = Inr (y, t')"
    then show "R t t' \<and> Q t' z" using Cons.prems(2)[of z t y t'] by simp
  qed
  from first rest show ?case using trans mono by auto
qed

lemma reaches_first:
  "reaches h v u \<Longrightarrow> u = v \<or> (\<exists>c\<in>set (children h v). reaches h c u)"
proof (induction rule: reaches.induct)
  case reaches_self
  then show ?case by simp
next
  case (reaches_step u u')
  then show ?case
    by (metis reaches.reaches_self reaches.reaches_step)
qed


lemma clean_children:
  assumes "\<not> unsupported h v" and "\<forall>c\<in>set (children h v). clean h c"
  shows "clean h v"
  unfolding clean_def
proof (intro allI impI)
  fix u assume "reaches h v u"
  from reaches_first[OF this] show "\<not> unsupported h u"
    using assms by (auto simp: clean_def)
qed

lemma covered_supported: "covered h tr v \<Longrightarrow> \<not> unsupported h v"
  by (induction rule: covered.induct)
     (auto simp: unsupported_def tracked_def split: option.splits obj.splits)

text \<open>When everything seen so far is closed, a covered value is clean.\<close>

lemma covered_clean:
  assumes cov: "covered h tr v"
    and closed: "\<forall>a\<in>dom (seen tr). closed_at h tr a"
  shows "clean h v"
proof -
  define Good where "Good u \<longleftrightarrow> covered h tr u \<or> (\<exists>i. clean h i \<and> reaches h i u)" for u
  have step: "Good u'" if "Good u" "u' \<in> set (children h u)" for u u'
  proof -
    from that(1) consider (c) "covered h tr u" | (i) i where "clean h i" "reaches h i u"
      by (auto simp: Good_def)
    then show ?thesis
    proof cases
      case i
      then show ?thesis using that(2) by (auto simp: Good_def intro: reaches.reaches_step)
    next
      case c
      then show ?thesis
      proof (cases rule: covered.cases)
        case (cov_prim p)
        then show ?thesis using that(2) by (simp add: children_def)
      next
        case (cov_seen a)
        then have ca: "closed_at h tr a" using closed by auto
        from cov_seen(2) consider (inst) cl ps where "deref h a = Some (OInstance cl ps)"
          | (plain) ps where "deref h a = Some (OPlain ps)"
          by (auto simp: tracked_def split: option.splits obj.splits)
        then show ?thesis
        proof cases
          case inst
          with ca have "clean h (Ref a)" by (simp add: closed_at_def)
          moreover have "reaches h (Ref a) u'"
            using that(2) cov_seen(1) by (auto intro: reaches.intros)
          ultimately show ?thesis by (auto simp: Good_def)
        next
          case plain
          with ca that(2) cov_seen(1) show ?thesis
            by (auto simp: closed_at_def children_def Good_def)
        qed
      next
        case (cov_untracked a ob)
        then show ?thesis using that(2) by (auto simp: children_def Good_def)
      qed
    qed
  qed
  have all: "Good u" if "reaches h v u" for u
    using that
  proof (induction rule: reaches.induct)
    case reaches_self
    then show ?case using cov by (simp add: Good_def)
  next
    case (reaches_step u u')
    then show ?case using step by blast
  qed
  show ?thesis
    unfolding clean_def
  proof (intro allI impI)
    fix u assume "reaches h v u"
    from all[OF this] show "\<not> unsupported h u"
      by (auto simp: Good_def clean_def dest: covered_supported)
  qed
qed

lemma seals_assign:
  assumes "seen tr a = None" and "closed_at h (tr\<lparr>seen := (seen tr)(a \<mapsto> i), current := j\<rparr>) a"
  shows "seals h tr (tr\<lparr>seen := (seen tr)(a \<mapsto> i), current := j\<rparr>)"
  using assms by (auto simp: seals_def)

lemma seals_covered: "seals h s s' \<Longrightarrow> covered h s x \<Longrightarrow> covered h s' x"
  by (auto simp: seals_def intro: covered_mono)

lemma serialize_success_clean:
  "(\<forall>v tr nd tr'. recursiveSerialize n h v tr = Inr (nd, tr') \<longrightarrow> seals h tr tr' \<and> covered h tr' v) \<and>
   (\<forall>v t. serializeValue n h v = Inr t \<longrightarrow> clean h v) \<and>
   (\<forall>a s. serialize n h a = Inr s \<longrightarrow> clean h (Ref a))"
proof (induction n)
  case 0
  then show ?case by simp
next
  case (Suc n)
  have IH1: "seals h tr tr' \<and> covered h tr' v"
    if "recursiveSerialize n h v tr = Inr (nd, tr')" for v tr nd tr'
    using Suc.IH that by blast
  have IH2: "clean h v" if "serializeValue n h v = Inr t" for v t
    using Suc.IH that by blast
  have IH3: "clean h (Ref a)" if "serialize n h a = Inr s" for a s
    using Suc.IH that by blast
  have elems: "seals h s s' \<and> (\<forall>x\<in>set xs. covered h s' x)"
    if "map_st (\<lambda>x t. recursiveSerialize n h x t) xs s = Inr (ys, s')" for xs s ys s'
    using that
    by (rule map_st_post[where R = "seals h" and Q = "covered h", rotated 4])
       (auto intro: seals_refl seals_trans seals_covered dest: IH1)
  have pairs: "seals h s s' \<and> (\<forall>kv\<in>set kvs. covered h s' (fst kv) \<and> covered h s' (snd kv))"
    if "map_st (\<lambda>(k, v) t.
                   case recursiveSerialize n h k t of
                     Inl e \<Rightarrow> Inl e
                   | Inr (nk, t1) \<Rightarrow>
                       (case recursiveSerialize n h v t1 of
                          Inl e \<Rightarrow> Inl e
                        | Inr (nv, t2) \<Rightarrow> Inr (NArr [nk, nv], t2))) kvs s = Inr (ys, s')" for kvs s ys s'
    using that
  proof (rule map_st_post[where R = "seals h"
        and Q = "\<lambda>s kv. covered h s (fst kv) \<and> covered h s (snd kv)", rotated 4])
    fix x s y s'
    assume "(case x of (k, v) \<Rightarrow> \<lambda>t.
                   case recursiveSerialize n h k t of
                     Inl e \<Rightarrow> Inl e
                   | Inr (nk, t1) \<Rightarrow>
                       (case recursiveSerialize n h v t1 of
                          Inl e \<Rightarrow> Inl e
                        | Inr (nv, t2) \<Rightarrow> Inr (NArr [nk, nv], t2))) s = Inr (y, s')"
    then obtain nk t1 nv where
      a: "recursiveSerialize n h (fst x) s = Inr (nk, t1)"
      and b: "recursiveSerialize n h (snd x) t1 = Inr (nv, s')"
      by (cases x) (auto split: sum.splits prod.splits)
    from IH1[OF a] IH1[OF b]
    show "seals h s s' \<and> covered h s' (fst x) \<and> covered h s' (snd x)"
      by (auto intro: seals_trans seals_covered)
  qed (auto intro: seals_refl seals_trans seals_covered)
  have fields: "seals h s s' \<and> (\<forall>kv\<in>set ps. covered h s' (snd kv))"
    if "map_st (\<lambda>(k, v) t.
                          case recursiveSerialize n h v t of
                            Inl e \<Rightarrow> Inl e
                          | Inr (nv, t1) \<Rightarrow> Inr ((k, nv), t1)) ps s = Inr (fs, s')"
    for ps :: "(string \<times> jsval) list" and s fs s'
    using that
  proof (rule map_st_post[where R = "seals h" and Q = "\<lambda>s kv. covered h s (snd kv)", rotated 4])
    fix x :: "string \<times> jsval" and s y s'
    assume "(case x of (k, v) \<Rightarrow> \<lambda>t.
                          case recursiveSerialize n h v t of
                            Inl e \<Rightarrow> Inl e
                          | Inr (nv, t1) \<Rightarrow> Inr ((k, nv), t1)) s = Inr (y, s')"
    then obtain nv where a: "recursiveSerialize n h (snd x) s = Inr (nv, s')"
      by (cases x) (auto split: sum.splits prod.splits)
    from IH1[OF a] show "seals h s s' \<and> covered h s' (snd x)" by simp
  qed (auto intro: seals_refl seals_trans seals_covered)
  have P1: "seals h tr tr' \<and> covered h tr' v"
    if run: "recursiveSerialize (Suc n) h v tr = Inr (nd, tr')" for v tr nd tr'
  proof (cases v)
    case (Prim p)
    with run have "tr' = tr" by (auto split: prim.splits)
    then show ?thesis using Prim by (simp add: seals_refl covered.cov_prim)
  next
    case (Ref a)
    show ?thesis
    proof (cases "deref h a")
      case None
      with run Ref show ?thesis by simp
    next
      case (Some ob)
      show ?thesis
      proof (cases ob)
        case (OInstance c ps)
        have tracked: "tracked h a" using Some OInstance by (simp add: tracked_def)
        show ?thesis
        proof (cases "seen tr a")
          case (Some i)
          with run Ref \<open>deref h a = Some ob\<close> OInstance have "tr' = tr" by simp
          then show ?thesis using Ref Some tracked
            by (auto simp: seals_refl intro: covered.cov_seen)
        next
          case None
          with run Ref \<open>deref h a = Some ob\<close> OInstance obtain s where
            s: "serialize n h a = Inr s"
            and tr': "tr' = tr\<lparr>seen := (seen tr)(a \<mapsto> current tr), current := Suc (current tr)\<rparr>"
            by (auto simp: Let_def split: sum.splits)
          have "closed_at h tr' a"
            using IH3[OF s] \<open>deref h a = Some ob\<close> OInstance by (simp add: closed_at_def)
          then have "seals h tr tr'" unfolding tr' using None by (rule seals_assign[rotated])
          moreover have "covered h tr' (Ref a)"
            using tracked by (rule covered.cov_seen) (simp add: tr')
          ultimately show ?thesis using Ref by simp
        qed
      next
        case (OArray xs)
        with run Ref Some obtain ys where
          "map_st (\<lambda>x t. recursiveSerialize n h x t) xs tr = Inr (ys, tr')"
          by (auto split: sum.splits prod.splits)
        from elems[OF this] show ?thesis
          using Ref Some OArray by (auto intro: covered.cov_untracked)
      next
        case (OMap kvs)
        with run Ref Some obtain ys where
          "map_st (\<lambda>(k, v) t.
                   case recursiveSerialize n h k t of
                     Inl e \<Rightarrow> Inl e
                   | Inr (nk, t1) \<Rightarrow>
                       (case recursiveSerialize n h v t1 of
                          Inl e \<Rightarrow> Inl e
                        | Inr (nv, t2) \<Rightarrow> Inr (NArr [nk, nv], t2))) kvs tr = Inr (ys, tr')"
          by (auto split: sum.splits prod.splits)
        from pairs[OF this] have s: "seals h tr tr'"
          and c: "\<forall>kv\<in>set kvs. covered h tr' (fst kv) \<and> covered h tr' (snd kv)"
          by simp_all
        have "covered h tr' (Ref a)"
          using Some
        proof (rule covered.cov_untracked)
          show "untracked ob" using OMap by simp
          show "\<forall>x\<in>set (children_of ob). covered h tr' x" using c OMap by auto
        qed
        then show ?thesis using s Ref by simp
      next
        case (OSet xs)
        with run Ref Some obtain ys where
          "map_st (\<lambda>x t. recursiveSerialize n h x t) xs tr = Inr (ys, tr')"
          by (auto split: sum.splits prod.splits)
        from elems[OF this] show ?thesis
          using Ref Some OSet by (auto intro: covered.cov_untracked)
      next
        case (OTypedArray c xs)
        with run Ref Some have "tr' = tr" by simp
        then show ?thesis using Ref Some OTypedArray
          by (auto simp: seals_refl intro: covered.cov_untracked)
      next
        case (ODate t)
        with run Ref Some have "tr' = tr" by (auto split: option.splits)
        then show ?thesis using Ref Some ODate
          by (auto simp: seals_refl intro: covered.cov_untracked)
      next
        case (ORegExp src fl)
        with run Ref Some have "tr' = tr" by simp
        then show ?thesis using Ref Some ORegExp
          by (auto simp: seals_refl intro: covered.cov_untracked)
      next
        case (OError nm msg stk)
        with run Ref Some have "tr' = tr" by simp
        then show ?thesis using Ref Some OError
          by (auto simp: seals_refl intro: covered.cov_untracked)
      next
        case (OPlain ps)
        have tracked: "tracked h a" using Some OPlain by (simp add: tracked_def)
        show ?thesis
        proof (cases "seen tr a")
          case (Some i)
          with run Ref \<open>deref h a = Some ob\<close> OPlain have "tr' = tr" by simp
          then show ?thesis using Ref Some tracked
            by (auto simp: seals_refl intro: covered.cov_seen)
        next
          case None
          let ?tr1 = "tr\<lparr>seen := (seen tr)(a \<mapsto> current tr), current := Suc (current tr)\<rparr>"
          from None run Ref \<open>deref h a = Some ob\<close> OPlain obtain fs where
            "map_st (\<lambda>(k, v) t.
                          case recursiveSerialize n h v t of
                            Inl e \<Rightarrow> Inl e
                          | Inr (nv, t1) \<Rightarrow> Inr ((k, nv), t1)) ps ?tr1 = Inr (fs, tr')"
            by (auto simp: Let_def split: sum.splits prod.splits)
          from fields[OF this] have s1: "seals h ?tr1 tr'"
            and c: "\<forall>kv\<in>set ps. covered h tr' (snd kv)"
            by simp_all
          have a_in: "a \<in> dom (seen tr')" using s1 by (auto simp: seals_def)
          have closed_a: "closed_at h tr' a"
            using c \<open>deref h a = Some ob\<close> OPlain by (auto simp: closed_at_def)
          have "seals h tr tr'"
            unfolding seals_def
          proof (intro conjI allI impI)
            show "dom (seen tr) \<subseteq> dom (seen tr')" using s1 by (auto simp: seals_def)
            fix b assume b: "b \<in> dom (seen tr') \<and> b \<notin> dom (seen tr)"
            show "closed_at h tr' b"
            proof (cases "b = a")
              case True
              then show ?thesis using closed_a by simp
            next
              case False
              then have "b \<notin> dom (seen ?tr1)" using b by auto
              then show ?thesis using s1 b by (auto simp: seals_def)
            qed
          qed
          moreover have "covered h tr' (Ref a)"
            using tracked a_in by (auto intro: covered.cov_seen)
          ultimately show ?thesis using Ref by simp
        qed
      next
        case (OOther c)
        with run Ref Some show ?thesis by simp
      qed
    qed
  qed
  have P2: "clean h v" if "serializeValue (Suc n) h v = Inr t" for v t
  proof -
    from that obtain tr' where r: "recursiveSerialize n h v fresh_tracker = Inr (t, tr')"
      by (auto split: sum.splits prod.splits)
    from IH1[OF r] have "covered h tr' v" and "\<forall>a\<in>dom (seen tr'). closed_at h tr' a"
      by (auto simp: seals_def fresh_tracker_def)
    then show ?thesis by (rule covered_clean)
  qed
  have P3: "clean h (Ref a)" if "serialize (Suc n) h a = Inr s" for a s
  proof -
    from that obtain c ps where d: "deref h a = Some (OInstance c ps)"
      by (auto split: option.splits obj.splits)
    with that obtain props where
      m: "map_err (\<lambda>(k, v). case serializeValue n h v of Inl e \<Rightarrow> Inl e | Inr t \<Rightarrow> Inr (k, t)) ps
          = Inr props"
      by (auto split: sum.splits)
    have "clean h v" if "v \<in> set (map snd ps)" for v
    proof -
      from that obtain k where "(k, v) \<in> set ps" by auto
      from map_err_Inr_all[OF m this] obtain t where "serializeValue n h v = Inr t"
        by (auto split: sum.splits)
      then show ?thesis by (rule IH2)
    qed
    then show ?thesis
      using d by (intro clean_children) (auto simp: unsupported_def children_def)
  qed
  show ?case using P1 P2 P3 by blast
qed

lemma reaches_custom: "reaches custom_heap (Ref 0) (Ref 4)"
proof -
  have "reaches custom_heap (Ref 0) (Ref 2)"
    by (rule reaches_step[OF reaches_self]) (simp add: children_def custom_heap_def deref_def)
  then have "reaches custom_heap (Ref 0) (Ref 3)"
    by (rule reaches_step) (simp add: children_def custom_heap_def deref_def)
  then show ?thesis
    by (rule reaches_step) (simp add: children_def custom_heap_def deref_def)
qed

text \<open>
  Claim C7, as amended. At any position and with any tracker state, \<^verbatim>\<open>recursiveSerialize\<close>
  throws the unsupported-type error on an object of no supported kind (an instance of a class
  that does not extend \<^verbatim>\<open>Serializable\<close>), carrying \<^verbatim>\<open>typeof value\<close>, which is \<^verbatim>\<open>object\<close>. When such
  an object lies anywhere at or below a value, \<^verbatim>\<open>_serializeValue\<close> of the value does not return,
  and when it lies anywhere below an instance, \<^verbatim>\<open>serialize\<close> of the instance does not return.
  A function or a symbol is not rejected: it is returned unencoded, as a scalar.
\<close>

theorem unsupported_object_throws:
  "(deref h a = Some (OOther c) \<longrightarrow>
      recursiveSerialize (Suc n) h (Ref a) tr = Inl (UnsupportedType ''object'')) \<and>
   (reaches h v u \<and> unsupported h u \<longrightarrow> (\<exists>e. serializeValue n h v = Inl e)) \<and>
   (reaches h (Ref x) u \<and> unsupported h u \<longrightarrow> (\<exists>e. serialize n h x = Inl e)) \<and>
   recursiveSerialize (Suc n) h (Prim (PFunction f)) tr = Inr (NPrim (PFunction f), tr) \<and>
   recursiveSerialize (Suc n) h (Prim (PSymbol s)) tr = Inr (NPrim (PSymbol s), tr)"
proof (intro conjI impI)
  assume "deref h a = Some (OOther c)"
  then show "recursiveSerialize (Suc n) h (Ref a) tr = Inl (UnsupportedType ''object'')"
    by simp
next
  assume r: "reaches h v u \<and> unsupported h u"
  show "\<exists>e. serializeValue n h v = Inl e"
  proof (cases "serializeValue n h v")
    case (Inl e)
    then show ?thesis by simp
  next
    case (Inr t)
    with serialize_success_clean[of n h] have "clean h v" by blast
    with r show ?thesis by (auto simp: clean_def)
  qed
next
  assume r: "reaches h (Ref x) u \<and> unsupported h u"
  show "\<exists>e. serialize n h x = Inl e"
  proof (cases "serialize n h x")
    case (Inl e)
    then show ?thesis by simp
  next
    case (Inr t)
    with serialize_success_clean[of n h] have "clean h (Ref x)" by blast
    with r show ?thesis by (auto simp: clean_def)
  qed
qed simp_all

theorem unsupported_object_throws_witness:
  "recursiveSerialize (Suc 0) custom_heap (Ref 4) fresh_tracker = Inl (UnsupportedType ''object'') \<and>
   reaches custom_heap (Ref 0) (Ref 4) \<and> unsupported custom_heap (Ref 4) \<and>
   (\<exists>e. serializeValue (Suc (Suc (Suc (Suc (Suc 0))))) custom_heap (Ref 0) = Inl e) \<and>
   (\<exists>e. serialize (Suc (Suc (Suc (Suc (Suc (Suc 0)))))) custom_heap 0 = Inl e)"
proof -
  have u: "unsupported custom_heap (Ref 4)"
    by (simp add: unsupported_def custom_heap_def deref_def)
  have d: "deref custom_heap 4 = Some (OOther ''Custom'')"
    by (simp add: custom_heap_def deref_def)
  show ?thesis
    using u d reaches_custom
      unsupported_object_throws[of custom_heap 4 "''Custom''" 0 fresh_tracker "Ref 0" "Ref 4" 0]
      unsupported_object_throws[of custom_heap 4 "''Custom''" "Suc (Suc (Suc (Suc (Suc 0))))"
        fresh_tracker "Ref 0" "Ref 4" 0]
      unsupported_object_throws[of custom_heap 4 "''Custom''" "Suc (Suc (Suc (Suc (Suc (Suc 0)))))"
        fresh_tracker "Ref 0" "Ref 4" 0]
    by blast
qed

lemma custom_heap_error:
  "serialize (Suc (Suc (Suc (Suc (Suc (Suc 0)))))) custom_heap 0 = Inl (UnsupportedType ''object'')"
  by (simp add: custom_heap_def deref_def fresh_tracker_def)

text \<open>
  The claim as stated fails for a function: \<^verbatim>\<open>_serializeValue\<close> returns it, and \<^verbatim>\<open>serialize\<close> of
  an instance with a function property returns the text without that property.
\<close>

theorem function_property_is_dropped:
  "serializeValue (Suc (Suc 0)) callback_heap (Prim (PFunction ''f'')) = Inr (NPrim (PFunction ''f'')) \<and>
   serialize (Suc (Suc (Suc (Suc 0)))) callback_heap 0 = Inr Point_text"
  by (simp add: callback_heap_def Point_text_def deref_def fresh_tracker_def JSON_stringify_def str_def)


subsection \<open>Containers and scalars\<close>


















text \<open>What the round trip of the array of \<open>nested_world\<close> builds.\<close>

lemma nested_roundtrip_value:
  "roundtrip (Suc (Suc (Suc (Suc (Suc 0))))) (Ref 0) nested_world =
     (Inr (Ref 10),
      nested_world\<lparr>hp := hp nested_world @
        [ODate (Some 1700000000000),
         ORegExp (Lit ''a+'') (Lit ''gi''),
         OMap [(Prim (PStr (Lit ''k'')), Ref 5), (Ref 6, Prim PNull)],
         ODate (Some 1700000000000),
         OSet [Prim (PNum 3), Ref 8],
         OArray [Prim (PNum 1), Prim (PStr (Lit ''a'')), Prim (PBool True), Prim PNull,
                 Prim PUndefined, Ref 7, Ref 9]]\<rparr>)"
  by (simp add: roundtrip_def nested_world_def deref_def fresh_tracker_def str_def get_field_def
      as_array_def pair_of_def new_Date_def new_RegExp_def new_Map_def new_Set_def refs_set_def
      Let_def)



subsection \<open>Reference tracking\<close>

















subsection \<open>Decoding an encoded graph of records\<close>

lemma heap_le_refl: "heap_le H H"
  by (auto simp: heap_le_def)


















lemma grows_dom: "grows tr tr' \<Longrightarrow> a \<in> dom (seen tr) \<Longrightarrow> a \<in> dom (seen tr')"
  by (auto simp: grows_def extends_def)

































lemma records_encoding:
  "serializeValue (Suc (Suc (Suc (Suc 0)))) (hp records_world) (Ref 0) =
     Inr (NObj [(''__type'', str ''Array''),
                (''data'', NArr [NObj [(''__type'', str ''Object''), (''id'', num 0),
                                       (''data'', NObj [(''self'', ref_node 0), (''n'', NPrim (PNum 1))])],
                                 ref_node 0,
                                 NObj [(''__type'', str ''Object''), (''id'', num 1),
                                       (''data'', NObj [(''o'', ref_node 0)])]])])"
  by (simp add: records_world_def deref_def fresh_tracker_def str_def num_def ref_node_def)


text \<open>What the round trip of the array of \<open>records_world\<close> builds.\<close>

lemma records_roundtrip_value:
  "roundtrip (Suc (Suc (Suc (Suc 0)))) (Ref 0) records_world =
     (Inr (Ref 5),
      records_world\<lparr>hp := hp records_world @
        [OPlain [(''self'', Ref 3), (''n'', Prim (PNum 1))],
         OPlain [(''o'', Ref 3)],
         OArray [Ref 3, Ref 3, Ref 4]]\<rparr>)"
  unfolding roundtrip_def records_encoding
  by (simp add: records_world_def deref_def str_def num_def ref_node_def get_field_def
      as_array_def refs_set_def refs_get_def object_entries_def set_prop_def Let_def)


text \<open>What the round trip of the array of \<open>twice_world\<close> builds.\<close>

lemma twice_roundtrip_value:
  "roundtrip (Suc (Suc (Suc (Suc 0)))) (Ref 0) twice_world =
     (Inr (Ref 3),
      twice_world\<lparr>hp := hp twice_world @
        [OPlain [(''n'', Prim (PNum 1))], OArray [Ref 2, Ref 2]]\<rparr>)"
  by (simp add: roundtrip_def twice_world_def deref_def fresh_tracker_def str_def num_def ref_node_def
      get_field_def as_array_def refs_set_def refs_get_def object_entries_def set_prop_def Let_def)



end
